theory Spec2Isabelle
  imports Main "HOL-Library.Word" "HOL-Library.Signed_Division" "HOL-Library.Monad_Syntax"
begin

unbundle bit_operations_syntax

section \<open>Data model of the encoder (dmtxencodescheme.c)\<close>

text \<open>
  A codeword is a \<^verbatim>\<open>DmtxByte\<close> (an unsigned 8-bit value). C \<^verbatim>\<open>int\<close> counters are
  modelled as \<^typ>\<open>int\<close>; lengths, capacities and the input cursor, which the code only ever
  counts upwards from zero, as \<^typ>\<open>nat\<close>. C's \<^verbatim>\<open>/\<close> and \<^verbatim>\<open>%\<close> truncate towards zero
  and are written \<open>sdiv\<close> and \<open>smod\<close>. The counters and indices of the encoder stay in the range
  of a 32-bit \<^verbatim>\<open>int\<close> as long as buffers hold fewer than fourteen million bytes, so their
  wrap-around is not written out. The one place where it is written out is
  \<^verbatim>\<open>Randomize253State2\<close>, whose position argument is any \<^verbatim>\<open>int\<close>: there the product
  \<^verbatim>\<open>149 * cwPosition\<close> is the product of 32-bit integers.
\<close>

type_synonym DmtxByte = "8 word"

datatype DmtxScheme =
  DmtxSchemeAscii | DmtxSchemeC40 | DmtxSchemeText | DmtxSchemeX12
  | DmtxSchemeEdifact | DmtxSchemeBase256

datatype DmtxStatus =
  DmtxStatusEncoding | DmtxStatusComplete | DmtxStatusInvalid | DmtxStatusFatal

datatype DmtxPassFail = DmtxFail | DmtxPass

datatype DmtxUnlatch = DmtxUnlatchExplicit | DmtxUnlatchImplicit

text \<open>
  A \<^verbatim>\<open>DmtxByteList\<close> is a view on caller-owned storage: the pointer \<^verbatim>\<open>b\<close>, the
  storage's capacity and the number of bytes in use. The storage itself lives in the byte
  memory, a map from a storage address to the array found there, so that two lists with the
  same pointer share their bytes, as in C.
\<close>

type_synonym memory = "nat \<Rightarrow> nat \<Rightarrow> DmtxByte"

record DmtxByteList =
  length_bl :: nat
  capacity :: nat
  b_ptr :: nat

text \<open>
  The \<^verbatim>\<open>DmtxEncodeStream\<close> struct, together with the byte memory its two lists point
  into. Copying the struct (\<^verbatim>\<open>streamAscii = *stream\<close>) copies the fields and shares
  the memory.
\<close>

record DmtxEncodeStream =
  currentScheme :: DmtxScheme
  inputNext :: nat
  outputChainValueCount :: int
  outputChainWordCount :: int
  reason :: int
  sizeIdx :: int
  status :: DmtxStatus
  input_bl :: DmtxByteList
  output_bl :: DmtxByteList
  mem :: memory

text \<open>
  The collaborator of the encoder: the symbol-size lookup \<^verbatim>\<open>FindSymbolSize\<close> and the
  attribute table read through \<^verbatim>\<open>dmtxGetSymbolAttribute(DmtxSymAttribSymbolDataWords, _)\<close>.
  Neither is defined in this file of the library, so both are parameters of the model.
\<close>

record DmtxSymbolTable =
  FindSymbolSize :: "int \<Rightarrow> int \<Rightarrow> int"
  SymbolDataWords :: "int \<Rightarrow> int"

subsection \<open>Constants of dmtx.h\<close>

text \<open>Modelled from the spec: the header dmtx.h is missing; the codeword constants are the
  wire-visible values of the spec's table, \<^verbatim>\<open>DmtxUndefined\<close> is the sentinel that is no size
  index.\<close>

definition DmtxUndefined :: int where "DmtxUndefined = -1"
definition DmtxValueAsciiPad :: DmtxByte where "DmtxValueAsciiPad = 129"
definition DmtxValueAsciiUpperShift :: DmtxByte where "DmtxValueAsciiUpperShift = 235"
definition DmtxValueC40Latch :: DmtxByte where "DmtxValueC40Latch = 230"
definition DmtxValueTextLatch :: DmtxByte where "DmtxValueTextLatch = 239"
definition DmtxValueX12Latch :: DmtxByte where "DmtxValueX12Latch = 238"
definition DmtxValueEdifactLatch :: DmtxByte where "DmtxValueEdifactLatch = 240"
definition DmtxValueBase256Latch :: DmtxByte where "DmtxValueBase256Latch = 231"
definition DmtxValueCTXUnlatch :: DmtxByte where "DmtxValueCTXUnlatch = 254"
definition DmtxValueEdifactUnlatch :: DmtxByte where "DmtxValueEdifactUnlatch = 31"
definition DmtxValueCTXShift1 :: DmtxByte where "DmtxValueCTXShift1 = 0"
definition DmtxValueCTXShift2 :: DmtxByte where "DmtxValueCTXShift2 = 1"
definition DmtxValueCTXShift3 :: DmtxByte where "DmtxValueCTXShift3 = 2"
definition DmtxChannelUnsupportedChar :: int where "DmtxChannelUnsupportedChar = 1"

text \<open>Modelled from the spec: the macro \<^verbatim>\<open>ISDIGIT\<close> of dmtxstatic.h is missing; a decimal
  digit is a byte from '0' (48) to '9' (57).\<close>

definition ISDIGIT :: "DmtxByte \<Rightarrow> bool" where
  "ISDIGIT n = (47 < uint n \<and> uint n < 58)"

section \<open>Randomization (Randomize253State2, Randomize255State2)\<close>

text \<open>The value of the local \<^verbatim>\<open>tmp\<close> of \<^verbatim>\<open>Randomize253State2\<close> where the function
  asserts \<^verbatim>\<open>tmp >= 0 && tmp < 256\<close>. The parameter \<^verbatim>\<open>cwPosition\<close> is a C \<^verbatim>\<open>int\<close> and
  so is the product \<^verbatim>\<open>149 * cwPosition\<close>: it is taken on 32-bit words and read as a signed
  value, the two's complement result (the product leaves the range of \<^verbatim>\<open>int\<close> from position
  14412642 on). \<^verbatim>\<open>Randomize253State2\<close> gives the low byte
  of \<^verbatim>\<open>tmp\<close>, which is what the function returns where the assertion holds or is compiled
  out.\<close>

definition Randomize253State2_tmp :: "DmtxByte \<Rightarrow> int \<Rightarrow> int" where
  "Randomize253State2_tmp cwValue cwPosition =
     (let pseudoRandom = (sint (149 * (word_of_int cwPosition :: 32 word)) smod 253) + 1;
          tmp = uint cwValue + pseudoRandom
      in if tmp > 254 then tmp - 254 else tmp)"

definition Randomize253State2 :: "DmtxByte \<Rightarrow> int \<Rightarrow> DmtxByte" where
  "Randomize253State2 cwValue cwPosition =
     word_of_int (Randomize253State2_tmp cwValue cwPosition)"

text \<open>\<^verbatim>\<open>Randomize255State2\<close>. Its position is always an index of the output plus one or
  two; the product is written on the integers, which is the product of the code as long as the
  output holds fewer than fourteen million bytes.\<close>

definition Randomize255State2 :: "DmtxByte \<Rightarrow> int \<Rightarrow> DmtxByte" where
  "Randomize255State2 val position =
     (let pseudoRandom = ((149 * position) smod 255) + 1;
          tmp = uint val + pseudoRandom
      in word_of_int (if tmp \<le> 255 then tmp else tmp - 256))"


text \<open>
  \<^verbatim>\<open>GetRemainingSymbolCapacity\<close>: the data words of the symbol less the output length, or
  \<^verbatim>\<open>DmtxUndefined\<close> for no symbol.
\<close>

definition GetRemainingSymbolCapacity :: "DmtxSymbolTable \<Rightarrow> int \<Rightarrow> int \<Rightarrow> int" where
  "GetRemainingSymbolCapacity tbl outputLength sizeIdx' =
     (if sizeIdx' = DmtxUndefined then DmtxUndefined
      else (let capacity' = SymbolDataWords tbl sizeIdx' in capacity' - outputLength))"

section \<open>Stream primitives (dmtxencodestream.c and dmtxbytelist.c)\<close>

text \<open>Modelled from the spec: \<^verbatim>\<open>dmtxByteListBuild\<close> is missing; it makes an empty list over
  the given storage ("swaps in a bounded scratch output").\<close>

definition dmtxByteListBuild :: "nat \<Rightarrow> nat \<Rightarrow> DmtxByteList" where
  "dmtxByteListBuild storage cap = \<lparr>length_bl = 0, capacity = cap, b_ptr = storage\<rparr>"

text \<open>Modelled from the spec: \<^verbatim>\<open>dmtxByteListHasCapacity\<close> is missing; the list has room
  while it is not full ("until the scratch fills").\<close>

definition dmtxByteListHasCapacity :: "DmtxByteList \<Rightarrow> bool" where
  "dmtxByteListHasCapacity list = (length_bl list < capacity list)"

text \<open>Modelled from the spec: the two-argument \<^verbatim>\<open>dmtxByteListPush\<close> is missing. It is used
  on the local value list of the C40/Text/X12 encoder, a list over four bytes of storage that
  nothing else points to; that list is modelled by its contents, and a push appends a value.
  What a push on a full list does is not stated anywhere: the model gives no result
  (\<open>None\<close>) there.\<close>

definition dmtxByteListPush :: "nat \<Rightarrow> DmtxByte list \<Rightarrow> DmtxByte \<Rightarrow> DmtxByte list option" where
  "dmtxByteListPush cap list val = (if length list < cap then Some (list @ [val]) else None)"

text \<open>Modelled from the spec: \<^verbatim>\<open>StreamMarkComplete\<close> is missing; the stream "transitions
  exactly once to a terminal state" and \<open>size_idx\<close> is "set exactly once at completion", so
  completion is recorded only on a stream that is still encoding.\<close>

definition StreamMarkComplete :: "DmtxEncodeStream \<Rightarrow> int \<Rightarrow> DmtxEncodeStream" where
  "StreamMarkComplete stream sizeIdx' =
     (if status stream = DmtxStatusEncoding
      then stream\<lparr>sizeIdx := sizeIdx', status := DmtxStatusComplete\<rparr>
      else stream)"

text \<open>Modelled from the spec: \<^verbatim>\<open>StreamMarkInvalid\<close> is missing; it sets the status flag
  with its "reason: diagnostic tag set alongside Invalid/Fatal".\<close>

definition StreamMarkInvalid :: "DmtxEncodeStream \<Rightarrow> int \<Rightarrow> DmtxEncodeStream" where
  "StreamMarkInvalid stream reasonIdx =
     stream\<lparr>status := DmtxStatusInvalid, reason := reasonIdx\<rparr>"

text \<open>Modelled from the spec: \<^verbatim>\<open>StreamMarkFatal\<close> is missing; as
  \<^verbatim>\<open>StreamMarkInvalid\<close>, for an internal contract violation.\<close>

definition StreamMarkFatal :: "DmtxEncodeStream \<Rightarrow> int \<Rightarrow> DmtxEncodeStream" where
  "StreamMarkFatal stream reasonIdx =
     stream\<lparr>status := DmtxStatusFatal, reason := reasonIdx\<rparr>"

text \<open>Modelled from the spec: \<^verbatim>\<open>StreamInputHasNext\<close> is missing; input remains while the
  cursor \<open>input_next\<close> is inside \<open>input\<close>.\<close>

definition StreamInputHasNext :: "DmtxEncodeStream \<Rightarrow> bool" where
  "StreamInputHasNext stream = (inputNext stream < length_bl (input_bl stream))"

text \<open>Modelled from the spec: \<^verbatim>\<open>StreamInputPeekNext\<close> is missing; it reads the byte under
  the cursor, and a read past the end is a contract violation (Fatal).\<close>

definition StreamInputPeekNext :: "DmtxEncodeStream \<Rightarrow> DmtxByte \<times> DmtxEncodeStream" where
  "StreamInputPeekNext stream =
     (if StreamInputHasNext stream
      then (mem stream (b_ptr (input_bl stream)) (inputNext stream), stream)
      else (0, StreamMarkFatal stream 1))"

text \<open>Modelled from the spec: \<^verbatim>\<open>StreamInputAdvanceNext\<close> is missing; it reads the byte
  under the cursor and moves the cursor on, unless the status has left Encoding ("once
  status != Encoding, no further mutation of \<open>input_next\<close> is permitted").\<close>

definition StreamInputAdvanceNext :: "DmtxEncodeStream \<Rightarrow> DmtxByte \<times> DmtxEncodeStream" where
  "StreamInputAdvanceNext stream =
     (let (val, stream1) = StreamInputPeekNext stream
      in (val, if status stream1 = DmtxStatusEncoding
               then stream1\<lparr>inputNext := inputNext stream1 + 1\<rparr>
               else stream1))"

text \<open>Modelled from the spec: \<^verbatim>\<open>StreamOutputChainAppend\<close> is missing; it writes one byte
  after the last one and advances \<open>output_chain_word_count\<close>; on a full buffer the stream
  fails (the scratch probe "ran out of room").\<close>

definition StreamOutputChainAppend :: "DmtxEncodeStream \<Rightarrow> DmtxByte \<Rightarrow> DmtxEncodeStream" where
  "StreamOutputChainAppend stream val =
     (if dmtxByteListHasCapacity (output_bl stream)
      then stream\<lparr>
             mem := (mem stream)(b_ptr (output_bl stream) :=
                      (mem stream (b_ptr (output_bl stream)))
                        (length_bl (output_bl stream) := val)),
             output_bl := (output_bl stream)\<lparr>length_bl := length_bl (output_bl stream) + 1\<rparr>,
             outputChainWordCount := outputChainWordCount stream + 1\<rparr>
      else StreamMarkFatal stream 1)"

text \<open>Modelled from the spec: \<^verbatim>\<open>StreamOutputChainRemoveLast\<close> is missing; it takes the last
  byte of the current chain off the output and returns it ("a suffix may be removed");
  on an empty chain the stream fails.\<close>

definition StreamOutputChainRemoveLast :: "DmtxEncodeStream \<Rightarrow> DmtxByte \<times> DmtxEncodeStream" where
  "StreamOutputChainRemoveLast stream =
     (if 0 < outputChainWordCount stream \<and> 0 < length_bl (output_bl stream)
      then (mem stream (b_ptr (output_bl stream)) (length_bl (output_bl stream) - 1),
            stream\<lparr>
              output_bl := (output_bl stream)\<lparr>length_bl := length_bl (output_bl stream) - 1\<rparr>,
              outputChainWordCount := outputChainWordCount stream - 1\<rparr>)
      else (0, StreamMarkFatal stream 1))"

text \<open>Modelled from the spec: \<^verbatim>\<open>StreamOutputSet\<close> is missing; "individual positions may be
  overwritten"; a position outside the output is a contract violation (Fatal).\<close>

definition StreamOutputSet :: "DmtxEncodeStream \<Rightarrow> int \<Rightarrow> DmtxByte \<Rightarrow> DmtxEncodeStream" where
  "StreamOutputSet stream index val =
     (if index < 0 \<or> int (length_bl (output_bl stream)) \<le> index
      then StreamMarkFatal stream 1
      else stream\<lparr>
             mem := (mem stream)(b_ptr (output_bl stream) :=
                      (mem stream (b_ptr (output_bl stream)))(nat index := val))\<rparr>)"

text \<open>Modelled from the spec: \<^verbatim>\<open>StreamOutputChainInsertFirst\<close> is a stub in the library
  ("a correct implementation must actually shift the chain"): one zero byte is inserted in
  front of the current chain, whose bytes move up by one position; the stream fails when the
  buffer is full or the chain is longer than the output.\<close>

definition StreamOutputChainInsertFirst :: "DmtxEncodeStream \<Rightarrow> DmtxEncodeStream" where
  "StreamOutputChainInsertFirst stream =
     (let len = length_bl (output_bl stream);
          chainStart = int len - outputChainWordCount stream;
          arr = mem stream (b_ptr (output_bl stream))
      in if dmtxByteListHasCapacity (output_bl stream) \<and> 0 \<le> chainStart \<and> chainStart \<le> int len
         then stream\<lparr>
                mem := (mem stream)(b_ptr (output_bl stream) :=
                         (\<lambda>i. if i < nat chainStart then arr i
                              else if i = nat chainStart then 0
                              else if i \<le> len then arr (i - 1)
                              else arr i)),
                output_bl := (output_bl stream)\<lparr>length_bl := len + 1\<rparr>,
                outputChainWordCount := outputChainWordCount stream + 1\<rparr>
         else StreamMarkFatal stream 1)"

text \<open>Modelled from the spec: \<^verbatim>\<open>StreamOutputChainRemoveFirst\<close> is a stub in the library
  ("a correct implementation must actually shift the chain"): the first byte of the current
  chain is removed and the bytes after it move down by one position; the stream fails on an
  empty chain or one longer than the output.\<close>

definition StreamOutputChainRemoveFirst :: "DmtxEncodeStream \<Rightarrow> DmtxEncodeStream" where
  "StreamOutputChainRemoveFirst stream =
     (let len = length_bl (output_bl stream);
          chainStart = int len - outputChainWordCount stream;
          arr = mem stream (b_ptr (output_bl stream))
      in if 0 < outputChainWordCount stream \<and> 0 \<le> chainStart \<and> chainStart < int len
         then stream\<lparr>
                mem := (mem stream)(b_ptr (output_bl stream) :=
                         (\<lambda>i. if nat chainStart \<le> i \<and> i + 1 < len then arr (i + 1) else arr i)),
                output_bl := (output_bl stream)\<lparr>length_bl := len - 1\<rparr>,
                outputChainWordCount := outputChainWordCount stream - 1\<rparr>
         else StreamMarkFatal stream 1)"

text \<open>The codewords of the output, first to last: what the list \<^verbatim>\<open>stream->output\<close> holds.\<close>

definition StreamOutput :: "DmtxEncodeStream \<Rightarrow> DmtxByte list" where
  "StreamOutput stream =
     map (mem stream (b_ptr (output_bl stream))) [0..<length_bl (output_bl stream)]"

section \<open>ASCII encoder\<close>

text \<open>\<^verbatim>\<open>EncodeValueAscii\<close>; \<^verbatim>\<open>CHKSCHEME\<close> and \<^verbatim>\<open>CHKERR\<close> are the early returns of
  the macros.\<close>

definition EncodeValueAscii :: "DmtxEncodeStream \<Rightarrow> DmtxByte \<Rightarrow> DmtxEncodeStream" where
  "EncodeValueAscii stream val =
     (if currentScheme stream \<noteq> DmtxSchemeAscii then StreamMarkFatal stream 1
      else let stream1 = StreamOutputChainAppend stream val
           in if status stream1 \<noteq> DmtxStatusEncoding then stream1
              else stream1\<lparr>outputChainValueCount := outputChainValueCount stream1 + 1\<rparr>)"

text \<open>\<^verbatim>\<open>EncodeNextChunkAscii\<close>. The arithmetic on \<^verbatim>\<open>v0\<close> and \<^verbatim>\<open>v1\<close> is C's, on
  \<^verbatim>\<open>int\<close>, and the result is converted to a byte at the call.\<close>

definition EncodeNextChunkAscii :: "DmtxEncodeStream \<Rightarrow> DmtxEncodeStream" where
  "EncodeNextChunkAscii stream =
     (if StreamInputHasNext stream then
        (let (v0, s1) = StreamInputAdvanceNext stream in
         if status s1 \<noteq> DmtxStatusEncoding then s1 else
         let (v1, v1set, s2) =
               (if StreamInputHasNext s1
                then (let (v, s) = StreamInputPeekNext s1 in (v, True, s))
                else (0, False, s1)) in
         if status s2 \<noteq> DmtxStatusEncoding then s2 else
         if ISDIGIT v0 \<and> v1set \<and> ISDIGIT v1 then
           (let (v, s3) = StreamInputAdvanceNext s2 in
            if status s3 \<noteq> DmtxStatusEncoding then s3 else
            EncodeValueAscii s3 (word_of_int (10 * (uint v0 - 48) + (uint v1 - 48) + 130)))
         else if uint v0 < 128 then
           EncodeValueAscii s2 (word_of_int (uint v0 + 1))
         else
           (let s3 = EncodeValueAscii s2 DmtxValueAsciiUpperShift in
            if status s3 \<noteq> DmtxStatusEncoding then s3 else
            EncodeValueAscii s3 (word_of_int (uint v0 - 127))))
      else stream)"

text \<open>\<^verbatim>\<open>PadRemainingInAscii\<close>: the loop over the randomized pad codewords, then the
  function. \<^verbatim>\<open>CHKSIZE\<close> marks the stream Invalid for \<^verbatim>\<open>DmtxUndefined\<close>.\<close>

function PadRemainingInAscii_loop :: "DmtxEncodeStream \<Rightarrow> int \<Rightarrow> DmtxEncodeStream" where
  "PadRemainingInAscii_loop stream symbolRemaining =
     (if symbolRemaining > 0 then
        (let padValue = Randomize253State2 DmtxValueAsciiPad
                          (int (length_bl (output_bl stream)) + 1);
             stream1 = StreamOutputChainAppend stream padValue
         in if status stream1 \<noteq> DmtxStatusEncoding then stream1
            else PadRemainingInAscii_loop stream1 (symbolRemaining - 1))
      else stream)"
  by pat_completeness auto
termination
  by (relation "measure (\<lambda>(stream, symbolRemaining). nat symbolRemaining)") auto

declare PadRemainingInAscii_loop.simps [simp del]

definition PadRemainingInAscii :: "DmtxSymbolTable \<Rightarrow> DmtxEncodeStream \<Rightarrow> int \<Rightarrow> DmtxEncodeStream" where
  "PadRemainingInAscii tbl stream sizeIdx' =
     (if currentScheme stream \<noteq> DmtxSchemeAscii then StreamMarkFatal stream 1
      else if sizeIdx' = DmtxUndefined then StreamMarkInvalid stream 1
      else
        (let symbolRemaining =
               GetRemainingSymbolCapacity tbl (int (length_bl (output_bl stream))) sizeIdx'
         in if symbolRemaining > 0 then
              (let stream1 = StreamOutputChainAppend stream DmtxValueAsciiPad
               in if status stream1 \<noteq> DmtxStatusEncoding then stream1
                  else PadRemainingInAscii_loop stream1 (symbolRemaining - 1))
            else PadRemainingInAscii_loop stream symbolRemaining))"

text \<open>\<^verbatim>\<open>CompleteIfDoneAscii\<close>.\<close>

definition CompleteIfDoneAscii :: "DmtxSymbolTable \<Rightarrow> DmtxEncodeStream \<Rightarrow> int \<Rightarrow> DmtxEncodeStream" where
  "CompleteIfDoneAscii tbl stream requestedSizeIdx =
     (if \<not> StreamInputHasNext stream then
        (let sizeIdx' = FindSymbolSize tbl (int (length_bl (output_bl stream))) requestedSizeIdx
         in if sizeIdx' = DmtxUndefined then StreamMarkInvalid stream 1
            else let stream1 = PadRemainingInAscii tbl stream sizeIdx'
                 in if status stream1 \<noteq> DmtxStatusEncoding then stream1
                    else StreamMarkComplete stream1 sizeIdx')
      else stream)"

section \<open>C40/Text/X12 encoder\<close>

text \<open>\<^verbatim>\<open>EncodeValuesCTX\<close>. The value list is the local four-byte list of
  \<^verbatim>\<open>EncodeNextChunkCTX\<close>, modelled by its contents.\<close>

definition EncodeValuesCTX :: "DmtxEncodeStream \<Rightarrow> DmtxByte list \<Rightarrow> DmtxEncodeStream" where
  "EncodeValuesCTX stream valueList =
     (if currentScheme stream \<noteq> DmtxSchemeC40 \<and>
         currentScheme stream \<noteq> DmtxSchemeText \<and>
         currentScheme stream \<noteq> DmtxSchemeX12
      then StreamMarkFatal stream 1
      else if length valueList \<noteq> 3 then StreamMarkFatal stream 1
      else
        (let pairValue = (1600 * uint (valueList ! 0)) + (40 * uint (valueList ! 1))
                           + uint (valueList ! 2) + 1;
             cw0 = word_of_int (pairValue sdiv 256);
             cw1 = word_of_int (pairValue smod 256);
             s1 = StreamOutputChainAppend stream cw0
         in if status s1 \<noteq> DmtxStatusEncoding then s1 else
            (let s2 = StreamOutputChainAppend s1 cw1
             in if status s2 \<noteq> DmtxStatusEncoding then s2
                else s2\<lparr>outputChainValueCount := outputChainValueCount s2 + 3\<rparr>)))"

text \<open>\<^verbatim>\<open>EncodeUnlatchCTX\<close>.\<close>

definition EncodeUnlatchCTX :: "DmtxEncodeStream \<Rightarrow> DmtxEncodeStream" where
  "EncodeUnlatchCTX stream =
     (if currentScheme stream \<noteq> DmtxSchemeC40 \<and>
         currentScheme stream \<noteq> DmtxSchemeText \<and>
         currentScheme stream \<noteq> DmtxSchemeX12
      then StreamMarkFatal stream 1
      else if outputChainValueCount stream smod 3 \<noteq> 0 then StreamMarkInvalid stream 1
      else
        (let s1 = StreamOutputChainAppend stream DmtxValueCTXUnlatch
         in if status s1 \<noteq> DmtxStatusEncoding then s1
            else s1\<lparr>outputChainValueCount := outputChainValueCount s1 + 1\<rparr>))"

text \<open>\<^verbatim>\<open>PushCTXValues\<close>. The first argument is the capacity of the value list; the
  result is the pass/fail value returned and the list as the pushes leave it.\<close>

definition PushCTXValues ::
  "nat \<Rightarrow> DmtxByte list \<Rightarrow> int \<Rightarrow> DmtxScheme \<Rightarrow> (DmtxPassFail \<times> DmtxByte list) option" where
  "PushCTXValues cap valueList inputValue targetScheme =
     (if inputValue > 127 \<and> targetScheme = DmtxSchemeX12 then Some (DmtxFail, valueList)
      else do {
        (valueList1, inputValue1) \<leftarrow>
          (if inputValue > 127 then do {
             l1 \<leftarrow> dmtxByteListPush cap valueList DmtxValueCTXShift2;
             l2 \<leftarrow> dmtxByteListPush cap l1 30;
             Some (l2, inputValue - 128) }
           else Some (valueList, inputValue));
        valueList2 \<leftarrow>
          (if targetScheme = DmtxSchemeX12 then
             (if inputValue1 = 13 then dmtxByteListPush cap valueList1 0
              else if inputValue1 = 42 then dmtxByteListPush cap valueList1 1
              else if inputValue1 = 62 then dmtxByteListPush cap valueList1 2
              else if inputValue1 = 32 then dmtxByteListPush cap valueList1 3
              else if inputValue1 \<ge> 48 \<and> inputValue1 \<le> 57
                then dmtxByteListPush cap valueList1 (word_of_int (inputValue1 - 44))
              else if inputValue1 \<ge> 65 \<and> inputValue1 \<le> 90
                then dmtxByteListPush cap valueList1 (word_of_int (inputValue1 - 51))
              else Some valueList1)
           else
             (if inputValue1 \<le> 31 then do {
                l \<leftarrow> dmtxByteListPush cap valueList1 DmtxValueCTXShift1;
                dmtxByteListPush cap l (word_of_int inputValue1) }
              else if inputValue1 = 32 then dmtxByteListPush cap valueList1 3
              else if inputValue1 \<le> 47 then do {
                l \<leftarrow> dmtxByteListPush cap valueList1 DmtxValueCTXShift2;
                dmtxByteListPush cap l (word_of_int (inputValue1 - 33)) }
              else if inputValue1 \<le> 57
                then dmtxByteListPush cap valueList1 (word_of_int (inputValue1 - 44))
              else if inputValue1 \<le> 64 then do {
                l \<leftarrow> dmtxByteListPush cap valueList1 DmtxValueCTXShift2;
                dmtxByteListPush cap l (word_of_int (inputValue1 - 43)) }
              else if inputValue1 \<le> 90 \<and> targetScheme = DmtxSchemeC40
                then dmtxByteListPush cap valueList1 (word_of_int (inputValue1 - 51))
              else if inputValue1 \<le> 90 \<and> targetScheme = DmtxSchemeText then do {
                l \<leftarrow> dmtxByteListPush cap valueList1 DmtxValueCTXShift3;
                dmtxByteListPush cap l (word_of_int (inputValue1 - 64)) }
              else if inputValue1 \<le> 95 then do {
                l \<leftarrow> dmtxByteListPush cap valueList1 DmtxValueCTXShift2;
                dmtxByteListPush cap l (word_of_int (inputValue1 - 69)) }
              else if inputValue1 = 96 \<and> targetScheme = DmtxSchemeText then do {
                l \<leftarrow> dmtxByteListPush cap valueList1 DmtxValueCTXShift3;
                dmtxByteListPush cap l 0 }
              else if inputValue1 \<le> 122 \<and> targetScheme = DmtxSchemeText
                then dmtxByteListPush cap valueList1 (word_of_int (inputValue1 - 83))
              else if inputValue1 \<le> 127 then do {
                l \<leftarrow> dmtxByteListPush cap valueList1 DmtxValueCTXShift3;
                dmtxByteListPush cap l (word_of_int (inputValue1 - 96)) }
              else Some valueList1));
        Some (DmtxPass, valueList2) })"

text \<open>
  The inner loop of \<^verbatim>\<open>EncodeNextChunkCTX\<close>,
  \<^verbatim>\<open>while(valueList.length >= 3) { EncodeValuesCTX(stream, &valueList); CHKERR; }\<close>.
  The call that would take the three values off the list is commented out in the source, so
  the list is the same in every round: the loop ends only through \<^verbatim>\<open>CHKERR\<close>, when the
  stream has failed (at the latest when the output buffer is full).
\<close>

function EncodeValuesCTX_loop :: "DmtxEncodeStream \<Rightarrow> DmtxByte list \<Rightarrow> DmtxEncodeStream" where
  "EncodeValuesCTX_loop stream valueList =
     (if length valueList \<ge> 3 then
        (let s1 = EncodeValuesCTX stream valueList
         in if status s1 \<noteq> DmtxStatusEncoding then s1
            else EncodeValuesCTX_loop s1 valueList)
      else stream)"
  by pat_completeness auto
termination
proof (relation "measure (\<lambda>(stream, valueList).
                   capacity (output_bl stream) - length_bl (output_bl stream))", goal_cases)
  case 1
  show ?case by simp
next
  case (2 stream valueList s1)
  then show ?case
    by (auto simp: EncodeValuesCTX_def StreamOutputChainAppend_def StreamMarkFatal_def
        dmtxByteListHasCapacity_def Let_def split: if_splits)
qed

declare EncodeValuesCTX_loop.simps [simp del]

text \<open>
  The outer loop of \<^verbatim>\<open>EncodeNextChunkCTX\<close>. It returns the stream and the value list;
  a stream that has left Encoding stands for the early return of \<^verbatim>\<open>CHKERR\<close>.
\<close>

function EncodeNextChunkCTX_loop ::
  "nat \<Rightarrow> DmtxEncodeStream \<Rightarrow> DmtxByte list \<Rightarrow> (DmtxEncodeStream \<times> DmtxByte list) option" where
  "EncodeNextChunkCTX_loop cap stream valueList =
     (if StreamInputHasNext stream then
        (let (inputValue, s1) = StreamInputAdvanceNext stream in
         if status s1 \<noteq> DmtxStatusEncoding then Some (s1, valueList) else
         (case PushCTXValues cap valueList (uint inputValue) (currentScheme s1) of
            None \<Rightarrow> None
          | Some (passFail, valueList1) \<Rightarrow>
              (let s2 = EncodeValuesCTX_loop s1 valueList1 in
               if status s2 \<noteq> DmtxStatusEncoding then Some (s2, valueList1)
               else if length valueList1 = 0 then Some (s2, valueList1)
               else EncodeNextChunkCTX_loop cap s2 valueList1)))
      else Some (stream, valueList))"
  by pat_completeness auto
termination
proof (relation "measure (\<lambda>(cap, stream, valueList).
                   length_bl (input_bl stream) - inputNext stream)", goal_cases)
  case 1
  show ?case by simp
next
  case (2 cap stream valueList x inputValue s1 y passFail valueList1 s2)
  have fails: "status (EncodeValuesCTX_loop s vl) \<noteq> DmtxStatusEncoding"
    if "length vl \<ge> 3" for s vl
    using that
  proof (induction s vl rule: EncodeValuesCTX_loop.induct)
    case (1 stream valueList)
    then show ?case
      by (subst EncodeValuesCTX_loop.simps) (simp add: Let_def)
  qed
  have "\<not> length valueList1 \<ge> 3"
  proof
    assume "length valueList1 \<ge> 3"
    from fails [OF this, of s1] 2 show False by simp
  qed
  then have "s2 = s1"
    using 2 by (subst (asm) EncodeValuesCTX_loop.simps) simp
  with 2 show ?case
    by (auto simp: StreamInputAdvanceNext_def StreamInputPeekNext_def StreamInputHasNext_def
        StreamMarkFatal_def split: if_splits)
qed

declare EncodeNextChunkCTX_loop.simps [simp del]

section \<open>EDIFACT encoder\<close>

text \<open>\<^verbatim>\<open>EncodeValueEdifact\<close>. \<^verbatim>\<open>edifactValue\<close> is a byte; the shifted values are
  converted to bytes at the calls, which keeps their low eight bits. The \<^verbatim>\<open>switch\<close> has
  no case for a negative remainder.\<close>

definition EncodeValueEdifact :: "DmtxEncodeStream \<Rightarrow> DmtxByte \<Rightarrow> DmtxEncodeStream" where
  "EncodeValueEdifact stream val =
     (if currentScheme stream \<noteq> DmtxSchemeEdifact then StreamMarkFatal stream 1
      else if uint val < 31 \<or> uint val > 94
        then StreamMarkInvalid stream DmtxChannelUnsupportedChar
      else
        (let edifactValue = push_bit 2 (val AND 0x3f);
             phase = outputChainValueCount stream smod 4
         in if phase = 0 then
              (let s1 = StreamOutputChainAppend stream edifactValue
               in if status s1 \<noteq> DmtxStatusEncoding then s1
                  else s1\<lparr>outputChainValueCount := outputChainValueCount s1 + 1\<rparr>)
            else if phase = 1 then
              (let (previousOutput, s1) = StreamOutputChainRemoveLast stream in
               if status s1 \<noteq> DmtxStatusEncoding then s1 else
               let s2 = StreamOutputChainAppend s1 (previousOutput OR drop_bit 6 edifactValue) in
               if status s2 \<noteq> DmtxStatusEncoding then s2 else
               let s3 = StreamOutputChainAppend s2 (push_bit 2 edifactValue) in
               if status s3 \<noteq> DmtxStatusEncoding then s3
               else s3\<lparr>outputChainValueCount := outputChainValueCount s3 + 1\<rparr>)
            else if phase = 2 then
              (let (previousOutput, s1) = StreamOutputChainRemoveLast stream in
               if status s1 \<noteq> DmtxStatusEncoding then s1 else
               let s2 = StreamOutputChainAppend s1 (previousOutput OR drop_bit 4 edifactValue) in
               if status s2 \<noteq> DmtxStatusEncoding then s2 else
               let s3 = StreamOutputChainAppend s2 (push_bit 4 edifactValue) in
               if status s3 \<noteq> DmtxStatusEncoding then s3
               else s3\<lparr>outputChainValueCount := outputChainValueCount s3 + 1\<rparr>)
            else if phase = 3 then
              (let (previousOutput, s1) = StreamOutputChainRemoveLast stream in
               if status s1 \<noteq> DmtxStatusEncoding then s1 else
               let s2 = StreamOutputChainAppend s1 (previousOutput OR drop_bit 2 edifactValue) in
               if status s2 \<noteq> DmtxStatusEncoding then s2
               else s2\<lparr>outputChainValueCount := outputChainValueCount s2 + 1\<rparr>)
            else stream\<lparr>outputChainValueCount := outputChainValueCount stream + 1\<rparr>))"

text \<open>\<^verbatim>\<open>EncodeNextChunkEdifact\<close>.\<close>

definition EncodeNextChunkEdifact :: "DmtxEncodeStream \<Rightarrow> DmtxEncodeStream" where
  "EncodeNextChunkEdifact stream =
     (if StreamInputHasNext stream then
        (let (val, s1) = StreamInputAdvanceNext stream
         in if status s1 \<noteq> DmtxStatusEncoding then s1
            else EncodeValueEdifact s1 val)
      else stream)"

section \<open>Base 256 encoder\<close>

text \<open>
  The second half of \<^verbatim>\<open>UpdateBase256ChainHeader\<close> ("Encode header byte(s) with current
  length"), with the locals of the first half as arguments. The header values are converted to
  bytes at the calls of \<^verbatim>\<open>Randomize255State2\<close>.
\<close>

definition UpdateBase256ChainHeader_encode ::
  "DmtxSymbolTable \<Rightarrow> DmtxEncodeStream \<Rightarrow> int \<Rightarrow> int \<Rightarrow> int \<Rightarrow> int \<Rightarrow> DmtxEncodeStream" where
  "UpdateBase256ChainHeader_encode tbl stream perfectSizeIdx headerIndex outputLength headerByteCount =
     (if headerByteCount = 1 \<and> perfectSizeIdx \<noteq> DmtxUndefined then
        (let headerValue0 = Randomize255State2 0 (headerIndex + 1);
             symbolDataWords = SymbolDataWords tbl perfectSizeIdx
         in if symbolDataWords \<noteq> int (length_bl (output_bl stream))
            then StreamMarkFatal stream 1
            else StreamOutputSet stream headerIndex headerValue0)
      else if headerByteCount = 1 \<and> perfectSizeIdx = DmtxUndefined then
        (let headerValue0 = Randomize255State2 (word_of_int outputLength) (headerIndex + 1)
         in StreamOutputSet stream headerIndex headerValue0)
      else if headerByteCount = 2 \<and> perfectSizeIdx = DmtxUndefined then
        (let headerValue0 = Randomize255State2 (word_of_int (outputLength sdiv 250 + 249))
                              (headerIndex + 1);
             s1 = StreamOutputSet stream headerIndex headerValue0
         in if status s1 \<noteq> DmtxStatusEncoding then s1 else
            (let headerValue1 = Randomize255State2 (word_of_int (outputLength smod 250))
                                  (headerIndex + 2)
             in StreamOutputSet s1 (headerIndex + 1) headerValue1))
      else StreamMarkFatal stream 1)"

text \<open>\<^verbatim>\<open>UpdateBase256ChainHeader\<close>: the header is brought to its length, then its
  bytes are written.\<close>

definition UpdateBase256ChainHeader ::
  "DmtxSymbolTable \<Rightarrow> DmtxEncodeStream \<Rightarrow> int \<Rightarrow> DmtxEncodeStream" where
  "UpdateBase256ChainHeader tbl stream perfectSizeIdx =
     (let headerIndex = int (length_bl (output_bl stream)) - outputChainWordCount stream;
          outputLength = outputChainValueCount stream;
          headerByteCount = outputChainWordCount stream - outputChainValueCount stream
      in if headerByteCount = 0 \<and> outputChainWordCount stream = 0 then
           (let s1 = StreamOutputChainAppend stream 0
            in if status s1 \<noteq> DmtxStatusEncoding then s1
               else UpdateBase256ChainHeader_encode tbl s1 perfectSizeIdx headerIndex outputLength
                      (headerByteCount + 1))
         else if headerByteCount = 1 \<and> outputLength > 249 then
           (let s1 = StreamOutputChainInsertFirst stream
            in if status s1 \<noteq> DmtxStatusEncoding then s1
               else UpdateBase256ChainHeader_encode tbl s1 perfectSizeIdx headerIndex outputLength
                      (headerByteCount + 1))
         else if headerByteCount = 2 \<and> perfectSizeIdx \<noteq> DmtxUndefined then
           (let s1 = StreamOutputChainRemoveFirst stream
            in if status s1 \<noteq> DmtxStatusEncoding then s1
               else UpdateBase256ChainHeader_encode tbl s1 perfectSizeIdx headerIndex outputLength
                      (headerByteCount - 1))
         else UpdateBase256ChainHeader_encode tbl stream perfectSizeIdx headerIndex outputLength
                headerByteCount)"

text \<open>\<^verbatim>\<open>EncodeValueBase256\<close>.\<close>

definition EncodeValueBase256 ::
  "DmtxSymbolTable \<Rightarrow> DmtxEncodeStream \<Rightarrow> DmtxByte \<Rightarrow> DmtxEncodeStream" where
  "EncodeValueBase256 tbl stream val =
     (if currentScheme stream \<noteq> DmtxSchemeBase256 then StreamMarkFatal stream 1
      else
        (let s1 = StreamOutputChainAppend stream
                    (Randomize255State2 val (int (length_bl (output_bl stream)) + 1))
         in if status s1 \<noteq> DmtxStatusEncoding then s1
            else UpdateBase256ChainHeader tbl
                   (s1\<lparr>outputChainValueCount := outputChainValueCount s1 + 1\<rparr>) DmtxUndefined))"

text \<open>\<^verbatim>\<open>EncodeNextChunkBase256\<close>.\<close>

definition EncodeNextChunkBase256 :: "DmtxSymbolTable \<Rightarrow> DmtxEncodeStream \<Rightarrow> DmtxEncodeStream" where
  "EncodeNextChunkBase256 tbl stream =
     (if StreamInputHasNext stream then
        (let (val, s1) = StreamInputAdvanceNext stream
         in if status s1 \<noteq> DmtxStatusEncoding then s1
            else EncodeValueBase256 tbl s1 val)
      else stream)"

section \<open>Scheme changes\<close>

text \<open>
  The end of \<^verbatim>\<open>EncodeChangeScheme\<close>, from \<^verbatim>\<open>stream->currentScheme = targetScheme\<close>
  on: the new chain starts, and a Base 256 chain gets its header byte.
\<close>

definition EncodeChangeScheme_chain ::
  "DmtxSymbolTable \<Rightarrow> DmtxEncodeStream \<Rightarrow> DmtxScheme \<Rightarrow> DmtxEncodeStream" where
  "EncodeChangeScheme_chain tbl stream targetScheme =
     (let s1 = stream\<lparr>currentScheme := targetScheme,
                      outputChainWordCount := 0,
                      outputChainValueCount := 0\<rparr>
      in if targetScheme = DmtxSchemeBase256
         then UpdateBase256ChainHeader tbl s1 DmtxUndefined
         else s1)"

text \<open>
  The middle of \<^verbatim>\<open>EncodeChangeScheme\<close>, from \<^verbatim>\<open>stream->currentScheme = DmtxSchemeAscii\<close>
  on: the latch to the target scheme is written in ASCII.
\<close>

definition EncodeChangeScheme_latch ::
  "DmtxSymbolTable \<Rightarrow> DmtxEncodeStream \<Rightarrow> DmtxScheme \<Rightarrow> DmtxEncodeStream" where
  "EncodeChangeScheme_latch tbl stream targetScheme =
     (let s1 = stream\<lparr>currentScheme := DmtxSchemeAscii\<rparr>;
          latch = (\<lambda>val. let s2 = EncodeValueAscii s1 val
                         in if status s2 \<noteq> DmtxStatusEncoding then s2
                            else EncodeChangeScheme_chain tbl s2 targetScheme)
      in case targetScheme of
           DmtxSchemeC40 \<Rightarrow> latch DmtxValueC40Latch
         | DmtxSchemeText \<Rightarrow> latch DmtxValueTextLatch
         | DmtxSchemeX12 \<Rightarrow> latch DmtxValueX12Latch
         | DmtxSchemeEdifact \<Rightarrow> latch DmtxValueEdifactLatch
         | DmtxSchemeBase256 \<Rightarrow> latch DmtxValueBase256Latch
         | DmtxSchemeAscii \<Rightarrow>
             (if currentScheme s1 \<noteq> DmtxSchemeAscii then StreamMarkFatal s1 1
              else EncodeChangeScheme_chain tbl s1 targetScheme))"

text \<open>\<^verbatim>\<open>EncodeChangeScheme\<close>: the unlatch from the current scheme, then the rest. The
  \<^verbatim>\<open>default\<close> branch of the first \<^verbatim>\<open>switch\<close> only asserts.\<close>

definition EncodeChangeScheme ::
  "DmtxSymbolTable \<Rightarrow> DmtxEncodeStream \<Rightarrow> DmtxScheme \<Rightarrow> DmtxUnlatch \<Rightarrow> DmtxEncodeStream" where
  "EncodeChangeScheme tbl stream targetScheme unlatchType =
     (if currentScheme stream = targetScheme then stream
      else if currentScheme stream = DmtxSchemeC40 \<or> currentScheme stream = DmtxSchemeText \<or>
              currentScheme stream = DmtxSchemeX12 then
        (if unlatchType = DmtxUnlatchExplicit then
           (let s1 = EncodeUnlatchCTX stream
            in if status s1 \<noteq> DmtxStatusEncoding then s1
               else EncodeChangeScheme_latch tbl s1 targetScheme)
         else EncodeChangeScheme_latch tbl stream targetScheme)
      else if currentScheme stream = DmtxSchemeEdifact then
        (if unlatchType = DmtxUnlatchExplicit then
           (let s1 = EncodeValueEdifact stream DmtxValueEdifactUnlatch
            in if status s1 \<noteq> DmtxStatusEncoding then s1
               else EncodeChangeScheme_latch tbl s1 targetScheme)
         else EncodeChangeScheme_latch tbl stream targetScheme)
      else EncodeChangeScheme_latch tbl stream targetScheme)"

section \<open>End-of-symbol handling\<close>

text \<open>\<^verbatim>\<open>CompleteIfDoneCTX\<close>.\<close>

definition CompleteIfDoneCTX :: "DmtxSymbolTable \<Rightarrow> DmtxEncodeStream \<Rightarrow> int \<Rightarrow> DmtxEncodeStream" where
  "CompleteIfDoneCTX tbl stream requestedSizeIdx =
     (let sizeIdx' = FindSymbolSize tbl (int (length_bl (output_bl stream))) requestedSizeIdx
      in if sizeIdx' = DmtxUndefined then StreamMarkInvalid stream 1 else
         (let symbolRemaining =
                GetRemainingSymbolCapacity tbl (int (length_bl (output_bl stream))) sizeIdx'
          in if \<not> StreamInputHasNext stream then
               (if symbolRemaining = 0 then StreamMarkComplete stream sizeIdx'
                else EncodeChangeScheme tbl stream DmtxSchemeAscii DmtxUnlatchExplicit)
             else stream))"

text \<open>\<^verbatim>\<open>CompleteIfDonePartialCTX\<close>; its \<^verbatim>\<open>else\<close> branch is commented out in the
  source and does nothing. The first argument is the capacity of the value list.\<close>

definition CompleteIfDonePartialCTX ::
  "DmtxSymbolTable \<Rightarrow> nat \<Rightarrow> DmtxEncodeStream \<Rightarrow> DmtxByte list \<Rightarrow> int \<Rightarrow> DmtxEncodeStream option" where
  "CompleteIfDonePartialCTX tbl cap stream valueList requestedSizeIdx =
     (if currentScheme stream \<noteq> DmtxSchemeC40 \<and>
         currentScheme stream \<noteq> DmtxSchemeText \<and>
         currentScheme stream \<noteq> DmtxSchemeX12
      then Some (StreamMarkFatal stream 1)
      else
        (let sizeIdx' = FindSymbolSize tbl (int (length_bl (output_bl stream))) requestedSizeIdx
         in if sizeIdx' = DmtxUndefined then Some (StreamMarkInvalid stream 1) else
            (let symbolRemaining =
                   GetRemainingSymbolCapacity tbl (int (length_bl (output_bl stream))) sizeIdx'
             in if length valueList = 2 \<and> symbolRemaining = 2 then
                  do {
                    valueList1 \<leftarrow> dmtxByteListPush cap valueList DmtxValueCTXShift1;
                    (let s1 = EncodeValuesCTX stream valueList1
                     in if status s1 \<noteq> DmtxStatusEncoding then Some s1
                        else Some (StreamMarkComplete s1 sizeIdx'))
                  }
                else Some stream)))"

text \<open>\<^verbatim>\<open>EncodeNextChunkCTX\<close>: the value list is built over four bytes of local storage.\<close>

definition EncodeNextChunkCTX ::
  "DmtxSymbolTable \<Rightarrow> DmtxEncodeStream \<Rightarrow> int \<Rightarrow> DmtxEncodeStream option" where
  "EncodeNextChunkCTX tbl stream requestedSizeIdx =
     do {
       (s1, valueList) \<leftarrow> EncodeNextChunkCTX_loop 4 stream [];
       (if status s1 \<noteq> DmtxStatusEncoding then Some s1
        else if \<not> StreamInputHasNext s1 \<and> length valueList > 0
          then CompleteIfDonePartialCTX tbl 4 s1 valueList requestedSizeIdx
        else Some s1)
     }"

text \<open>
  The loop of \<^verbatim>\<open>EncodeTmpRemainingInAscii\<close>. The source does not check the status in
  the loop; on a stream that has left Encoding while input and room remain the loop makes no
  progress, so the loop is a partial function.
\<close>

partial_function (option) EncodeTmpRemainingInAscii_loop ::
  "DmtxEncodeStream \<Rightarrow> DmtxEncodeStream option" where
  "EncodeTmpRemainingInAscii_loop streamAscii =
     (if dmtxByteListHasCapacity (output_bl streamAscii) then
        (if StreamInputHasNext streamAscii
         then EncodeTmpRemainingInAscii_loop (EncodeNextChunkAscii streamAscii)
         else Some streamAscii)
      else Some streamAscii)"

declare EncodeTmpRemainingInAscii_loop.simps [code]

text \<open>
  \<^verbatim>\<open>EncodeTmpRemainingInAscii\<close>. The copy \<^verbatim>\<open>streamAscii\<close> shares the byte memory with
  the stream, and writes to \<^verbatim>\<open>storage\<close>. The result is the list returned, the value
  stored through \<^verbatim>\<open>passFail\<close>, and the caller's stream after the call: its fields as they
  were, with the byte memory as the copy left it.
\<close>

definition EncodeTmpRemainingInAscii ::
  "DmtxEncodeStream \<Rightarrow> nat \<Rightarrow> nat \<Rightarrow> (DmtxByteList \<times> DmtxPassFail \<times> DmtxEncodeStream) option" where
  "EncodeTmpRemainingInAscii stream storage cap =
     do {
       streamAscii \<leftarrow> EncodeTmpRemainingInAscii_loop
         (stream\<lparr>currentScheme := DmtxSchemeAscii,
                 outputChainValueCount := 0,
                 outputChainWordCount := 0,
                 reason := DmtxUndefined,
                 sizeIdx := DmtxUndefined,
                 status := DmtxStatusEncoding,
                 output_bl := dmtxByteListBuild storage cap\<rparr>);
       Some (output_bl streamAscii,
             if status streamAscii = DmtxStatusEncoding then DmtxPass else DmtxFail,
             stream\<lparr>mem := mem streamAscii\<rparr>)
     }"

text \<open>The \<^verbatim>\<open>for\<close> loop of \<^verbatim>\<open>CompleteIfDoneEdifact\<close> over the bytes of
  \<^verbatim>\<open>outputTmp\<close>.\<close>

function EncodeValueAscii_each ::
  "DmtxEncodeStream \<Rightarrow> DmtxByteList \<Rightarrow> nat \<Rightarrow> DmtxEncodeStream" where
  "EncodeValueAscii_each stream outputTmp i =
     (if i < length_bl outputTmp then
        (let s1 = EncodeValueAscii stream (mem stream (b_ptr outputTmp) i)
         in if status s1 \<noteq> DmtxStatusEncoding then s1
            else EncodeValueAscii_each s1 outputTmp (i + 1))
      else stream)"
  by pat_completeness auto
termination
  by (relation "measure (\<lambda>(stream, outputTmp, i). length_bl outputTmp - i)") auto

declare EncodeValueAscii_each.simps [simp del]

text \<open>
  \<^verbatim>\<open>CompleteIfDoneEdifact\<close>. The local array \<^verbatim>\<open>outputTmpStorage\<close> is a storage of its
  own: its address is one that neither list of the stream points to.
\<close>

definition outputTmpStorage :: "DmtxEncodeStream \<Rightarrow> nat" where
  "outputTmpStorage stream = Suc (max (b_ptr (input_bl stream)) (b_ptr (output_bl stream)))"

definition CompleteIfDoneEdifact ::
  "DmtxSymbolTable \<Rightarrow> DmtxEncodeStream \<Rightarrow> int \<Rightarrow> DmtxEncodeStream option" where
  "CompleteIfDoneEdifact tbl stream requestedSizeIdx =
     (let cleanBoundary = (outputChainValueCount stream smod 4 = 0);
          sizeIdx' = FindSymbolSize tbl (int (length_bl (output_bl stream))) requestedSizeIdx
      in if sizeIdx' = DmtxUndefined then Some (StreamMarkInvalid stream 1) else
         (let symbolRemaining =
                GetRemainingSymbolCapacity tbl (int (length_bl (output_bl stream))) sizeIdx'
          in if status stream \<noteq> DmtxStatusEncoding then Some stream
             else if \<not> StreamInputHasNext stream then
               (if \<not> cleanBoundary \<or> symbolRemaining > 0 then
                  (let s1 = EncodeChangeScheme tbl stream DmtxSchemeAscii DmtxUnlatchExplicit in
                   if status s1 \<noteq> DmtxStatusEncoding then Some s1 else
                   let sizeIdx1 = FindSymbolSize tbl (int (length_bl (output_bl s1))) requestedSizeIdx in
                   if sizeIdx1 = DmtxUndefined then Some (StreamMarkInvalid s1 1) else
                   let s2 = PadRemainingInAscii tbl s1 sizeIdx1 in
                   if status s2 \<noteq> DmtxStatusEncoding then Some s2
                   else Some (StreamMarkComplete s2 sizeIdx1))
                else Some (StreamMarkComplete stream sizeIdx'))
             else
               do {
                 (outputTmp, passFail, s1) \<leftarrow>
                   EncodeTmpRemainingInAscii stream (outputTmpStorage stream) 3;
                 (if passFail = DmtxFail \<or> int (length_bl outputTmp) > symbolRemaining
                  then Some s1
                  else if cleanBoundary \<and> (length_bl outputTmp = 1 \<or> length_bl outputTmp = 2) then
                    (let s2 = EncodeChangeScheme tbl s1 DmtxSchemeAscii DmtxUnlatchImplicit in
                     if status s2 \<noteq> DmtxStatusEncoding then Some s2 else
                     let s3 = EncodeValueAscii_each s2 outputTmp 0 in
                     if status s3 \<noteq> DmtxStatusEncoding then Some s3 else
                     let s4 = s3\<lparr>inputNext := length_bl (input_bl s3)\<rparr>;
                         s5 = PadRemainingInAscii tbl s4 sizeIdx' in
                     if status s5 \<noteq> DmtxStatusEncoding then Some s5
                     else Some (StreamMarkComplete s5 sizeIdx'))
                  else Some s1)
               }))"

text \<open>\<^verbatim>\<open>CompleteIfDoneBase256\<close>; the calls of its normal case are not followed by
  \<^verbatim>\<open>CHKERR\<close>.\<close>

definition CompleteIfDoneBase256 ::
  "DmtxSymbolTable \<Rightarrow> DmtxEncodeStream \<Rightarrow> int \<Rightarrow> DmtxEncodeStream" where
  "CompleteIfDoneBase256 tbl stream requestedSizeIdx =
     (if \<not> StreamInputHasNext stream then
        (let headerByteCount = outputChainWordCount stream - outputChainValueCount stream;
             outputLength = int (length_bl (output_bl stream)) - 1;
             perfectSizeIdx = FindSymbolSize tbl outputLength requestedSizeIdx
         in if headerByteCount = 2 \<and> perfectSizeIdx \<noteq> DmtxUndefined \<and>
               GetRemainingSymbolCapacity tbl outputLength perfectSizeIdx = 0
            then
              (let s1 = UpdateBase256ChainHeader tbl stream perfectSizeIdx
               in if status s1 \<noteq> DmtxStatusEncoding then s1
                  else StreamMarkComplete s1 perfectSizeIdx)
            else
              (let sizeIdx' = FindSymbolSize tbl (int (length_bl (output_bl stream))) requestedSizeIdx
               in if sizeIdx' = DmtxUndefined then StreamMarkInvalid stream 1 else
                  (let s1 = EncodeChangeScheme tbl stream DmtxSchemeAscii DmtxUnlatchImplicit;
                       s2 = PadRemainingInAscii tbl s1 sizeIdx'
                   in StreamMarkComplete s2 sizeIdx')))
      else stream)"

section \<open>Dispatcher\<close>

text \<open>The \<^verbatim>\<open>switch\<close> of \<^verbatim>\<open>EncodeNextChunk\<close> on the current scheme.\<close>

definition EncodeNextChunk_switch ::
  "DmtxSymbolTable \<Rightarrow> DmtxEncodeStream \<Rightarrow> int \<Rightarrow> DmtxEncodeStream option" where
  "EncodeNextChunk_switch tbl stream requestedSizeIdx =
     (case currentScheme stream of
        DmtxSchemeAscii \<Rightarrow>
          (let s1 = EncodeNextChunkAscii stream
           in if status s1 \<noteq> DmtxStatusEncoding then Some s1
              else Some (CompleteIfDoneAscii tbl s1 requestedSizeIdx))
      | DmtxSchemeEdifact \<Rightarrow>
          (let s1 = EncodeNextChunkEdifact stream
           in if status s1 \<noteq> DmtxStatusEncoding then Some s1
              else CompleteIfDoneEdifact tbl s1 requestedSizeIdx)
      | DmtxSchemeBase256 \<Rightarrow>
          (let s1 = EncodeNextChunkBase256 tbl stream
           in if status s1 \<noteq> DmtxStatusEncoding then Some s1
              else Some (CompleteIfDoneBase256 tbl s1 requestedSizeIdx))
      | _ \<Rightarrow>
          do {
            s1 \<leftarrow> EncodeNextChunkCTX tbl stream requestedSizeIdx;
            (if status s1 \<noteq> DmtxStatusEncoding then Some s1
             else Some (CompleteIfDoneCTX tbl s1 requestedSizeIdx))
          })"

text \<open>\<^verbatim>\<open>EncodeNextChunk\<close>.\<close>

definition EncodeNextChunk ::
  "DmtxSymbolTable \<Rightarrow> DmtxEncodeStream \<Rightarrow> DmtxScheme \<Rightarrow> int \<Rightarrow> DmtxEncodeStream option" where
  "EncodeNextChunk tbl stream targetScheme requestedSizeIdx =
     (if currentScheme stream \<noteq> targetScheme then
        (let s1 = EncodeChangeScheme tbl stream targetScheme DmtxUnlatchExplicit
         in if status s1 \<noteq> DmtxStatusEncoding then Some s1
            else if currentScheme s1 \<noteq> targetScheme then Some (StreamMarkFatal s1 1)
            else EncodeNextChunk_switch tbl s1 requestedSizeIdx)
      else EncodeNextChunk_switch tbl stream requestedSizeIdx)"

text \<open>The \<^verbatim>\<open>while\<close> loop of \<^verbatim>\<open>EncodeSingleScheme2\<close>; nothing in the source bounds the
  number of its rounds, so it is a partial function.\<close>

partial_function (option) EncodeSingleScheme2_loop ::
  "DmtxSymbolTable \<Rightarrow> DmtxEncodeStream \<Rightarrow> DmtxScheme \<Rightarrow> int \<Rightarrow> DmtxEncodeStream option" where
  "EncodeSingleScheme2_loop tbl stream targetScheme requestedSizeIdx =
     (if status stream = DmtxStatusEncoding then
        do {
          s1 \<leftarrow> EncodeNextChunk tbl stream targetScheme requestedSizeIdx;
          EncodeSingleScheme2_loop tbl s1 targetScheme requestedSizeIdx
        }
      else Some stream)"

declare EncodeSingleScheme2_loop.simps [code]

text \<open>\<^verbatim>\<open>EncodeSingleScheme2\<close>: the value returned and the stream as the call leaves it.\<close>

definition EncodeSingleScheme2 ::
  "DmtxSymbolTable \<Rightarrow> DmtxEncodeStream \<Rightarrow> DmtxScheme \<Rightarrow> int
     \<Rightarrow> (DmtxPassFail \<times> DmtxEncodeStream) option" where
  "EncodeSingleScheme2 tbl stream targetScheme requestedSizeIdx =
     (if currentScheme stream \<noteq> DmtxSchemeAscii then Some (DmtxFail, StreamMarkFatal stream 1)
      else
        do {
          s1 \<leftarrow> EncodeSingleScheme2_loop tbl stream targetScheme requestedSizeIdx;
          (if status s1 \<noteq> DmtxStatusComplete \<or> StreamInputHasNext s1 then Some (DmtxFail, s1)
           else Some (DmtxPass, s1))
        })"

section \<open>Streams and a symbol table to run the encoder on\<close>

text \<open>Modelled from the spec: the function that sets up a stream is missing; a stream "is
  created with \<open>input\<close> bound, enters Encoding", its scheme is "initial value Ascii", its chain
  counters are zero and its output is empty. The input bytes are stored at address 0, the
  output buffer is the storage at address 1.\<close>

definition StreamInit :: "DmtxByte list \<Rightarrow> nat \<Rightarrow> DmtxEncodeStream" where
  "StreamInit inputBytes outputCapacity =
     \<lparr>currentScheme = DmtxSchemeAscii,
      inputNext = 0,
      outputChainValueCount = 0,
      outputChainWordCount = 0,
      reason = DmtxUndefined,
      sizeIdx = DmtxUndefined,
      status = DmtxStatusEncoding,
      input_bl = \<lparr>length_bl = length inputBytes, capacity = length inputBytes, b_ptr = 0\<rparr>,
      output_bl = dmtxByteListBuild 1 outputCapacity,
      mem = (\<lambda>a i. if a = 0 \<and> i < length inputBytes then inputBytes ! i else 0)\<rparr>"

text \<open>Modelled from the spec: the symbol table and \<^verbatim>\<open>FindSymbolSize\<close> are missing.
  \<open>find_symbol_size\<close> "returns the smallest symbol able to hold that many data words, or
  Undefined if none", for "a hint (specific size or Auto)". The table used to run the encoder
  holds the data-word capacities of the 24 square symbols of ISO/IEC 16022, from 10x10 (index
  0, three data words) to 144x144; the hint \<^verbatim>\<open>DmtxSymbolSquareAuto\<close> is -2.\<close>

definition SquareSymbolDataWords :: "int list" where
  "SquareSymbolDataWords =
     [3, 5, 8, 12, 18, 22, 30, 36, 44, 62, 86, 114, 144, 174, 204, 280, 368, 456, 576, 696,
      816, 1050, 1304, 1558]"

definition DmtxSymbolSquareAuto :: int where "DmtxSymbolSquareAuto = -2"

fun FindFirstFit :: "int list \<Rightarrow> int \<Rightarrow> int \<Rightarrow> int" where
  "FindFirstFit [] dataWords idx = DmtxUndefined"
| "FindFirstFit (w # ws) dataWords idx =
     (if dataWords \<le> w then idx else FindFirstFit ws dataWords (idx + 1))"

definition SquareSymbols :: DmtxSymbolTable where
  "SquareSymbols =
     \<lparr>FindSymbolSize = (\<lambda>dataWords sizeIdxRequest.
        if sizeIdxRequest = DmtxSymbolSquareAuto then FindFirstFit SquareSymbolDataWords dataWords 0
        else if 0 \<le> sizeIdxRequest \<and> sizeIdxRequest < 24 \<and>
                dataWords \<le> SquareSymbolDataWords ! nat sizeIdxRequest then sizeIdxRequest
        else DmtxUndefined),
      SymbolDataWords = (\<lambda>sizeIdx'.
        if 0 \<le> sizeIdx' \<and> sizeIdx' < 24 then SquareSymbolDataWords ! nat sizeIdx'
        else DmtxUndefined)\<rparr>"

text \<open>What the encoder may assume of its collaborator: a symbol that \<^verbatim>\<open>FindSymbolSize\<close>
  returns holds at least the data words asked for.\<close>

definition SymbolTableFits :: "DmtxSymbolTable \<Rightarrow> bool" where
  "SymbolTableFits tbl =
     (\<forall>dataWords sizeIdxRequest.
        FindSymbolSize tbl dataWords sizeIdxRequest \<noteq> DmtxUndefined \<longrightarrow>
        dataWords \<le> SymbolDataWords tbl (FindSymbolSize tbl dataWords sizeIdxRequest))"

section \<open>Frame conditions\<close>

text \<open>
  \<open>only_output_written s s'\<close>: going from \<open>s\<close> to \<open>s'\<close>, the only storage written is the
  one the output list of \<open>s\<close> points to; the lists still point where they did.
\<close>

definition only_output_written :: "DmtxEncodeStream \<Rightarrow> DmtxEncodeStream \<Rightarrow> bool" where
  "only_output_written s s' \<longleftrightarrow>
     input_bl s' = input_bl s \<and>
     b_ptr (output_bl s') = b_ptr (output_bl s) \<and>
     capacity (output_bl s') = capacity (output_bl s) \<and>
     (\<forall>a. a \<noteq> b_ptr (output_bl s) \<longrightarrow> mem s' a = mem s a)"

section \<open>The spec's formulas\<close>


section \<open>The completion invariant\<close>

text \<open>
  \<open>symbol_filled tbl s\<close>: a stream that is Complete holds exactly the data words of the symbol
  recorded in \<^verbatim>\<open>sizeIdx\<close>.
\<close>

definition symbol_filled :: "DmtxSymbolTable \<Rightarrow> DmtxEncodeStream \<Rightarrow> bool" where
  "symbol_filled tbl s \<longleftrightarrow>
     (status s = DmtxStatusComplete \<longrightarrow>
        int (length_bl (output_bl s)) = SymbolDataWords tbl (sizeIdx s))"

section \<open>Properties of the randomization\<close>

lemma smod_nonneg_pos: "0 \<le> a \<Longrightarrow> 0 < b \<Longrightarrow> (a::int) smod b = a mod b"
  by (simp add: signed_modulo_int_def sgn_if)

text \<open>Up to position 14412641 the product \<^verbatim>\<open>149 * cwPosition\<close> fits a 32-bit \<^verbatim>\<open>int\<close>
  (\<open>149 * 14412641 = 2147483509\<close>, and \<open>2^31 - 1 = 2147483647\<close>).\<close>

lemma int_product_149:
  assumes "1 \<le> pos" and "pos \<le> 14412641"
  shows "sint (149 * (word_of_int pos :: 32 word)) = 149 * pos"
proof -
  have "149 * (word_of_int pos :: 32 word) = word_of_int (149 * pos)"
    by simp
  moreover have "sint (word_of_int (149 * pos) :: 32 word) = signed_take_bit 31 (149 * pos)"
    by (simp only: sint_sbintrunc' len_of_numeral_defs) simp
  moreover have "signed_take_bit 31 (149 * pos) = 149 * pos"
    using assms by (intro signed_take_bit_int_eq_self) simp_all
  ultimately show ?thesis by simp
qed

lemma pseudoRandom253:
  assumes "1 \<le> pos" and "pos \<le> 14412641"
  shows "sint (149 * (word_of_int pos :: 32 word)) smod 253 = (149 * pos) mod 253"
proof -
  have "(149 * pos) smod 253 = (149 * pos) mod 253"
    using assms(1) by (intro smod_nonneg_pos) auto
  then show ?thesis
    by (simp only: int_product_149 [OF assms])
qed

lemma Randomize253State2_tmp_unfold:
  assumes "1 \<le> pos" and "pos \<le> 14412641"
  shows "Randomize253State2_tmp v pos =
           (if uint v + ((149 * pos) mod 253 + 1) > 254
            then uint v + ((149 * pos) mod 253 + 1) - 254
            else uint v + ((149 * pos) mod 253 + 1))"
  unfolding Randomize253State2_tmp_def Let_def pseudoRandom253 [OF assms] by (rule refl)

lemma uint_byte_range: "0 \<le> uint (v::DmtxByte) \<and> uint v \<le> 255"
proof -
  have "uint v < 2 ^ LENGTH(8)" by (rule uint_bounded)
  then show ?thesis by simp
qed

lemma Randomize253State2_tmp_range:
  assumes "1 \<le> pos" and "pos \<le> 14412641"
  shows "1 \<le> Randomize253State2_tmp v pos \<and> Randomize253State2_tmp v pos \<le> 254"
proof -
  have "0 \<le> (149 * pos) mod 253" "(149 * pos) mod 253 < 253"
    by simp_all
  then show ?thesis
    using uint_byte_range [of v]
    by (auto simp: Randomize253State2_tmp_unfold [OF assms])
qed

lemma uint_Randomize253State2:
  assumes "1 \<le> pos" and "pos \<le> 14412641"
  shows "uint (Randomize253State2 v pos) = Randomize253State2_tmp v pos"
proof -
  have "Randomize253State2_tmp v pos mod 2 ^ 8 = Randomize253State2_tmp v pos"
    using Randomize253State2_tmp_range [OF assms, of v] by simp
  then show ?thesis
    by (simp add: Randomize253State2_def uint_word_of_int)
qed

text \<open>Beyond that position the 32-bit product has wrapped around and the function no
  longer follows the formula: at position 20000000 it returns 81 for the pad codeword, where
  the formula on the integers gives 162.\<close>

lemma Randomize253State2_beyond_int_range:
  "uint (Randomize253State2 129 20000000) = 81
   \<and> (((uint (129::DmtxByte) + ((149 * 20000000) mod 253) + 1) - 1) mod 254) + 1 = (162::int)"
  by code_simp

text \<open>
  Claim C7 (as amended). For every byte \<open>v\<close> and every position \<open>pos\<close> from 1 to 14412641
  (the positions whose product \<open>149*pos\<close> fits the 32-bit \<^verbatim>\<open>int\<close> of the code) the byte
  returned by \<^verbatim>\<open>Randomize253State2\<close> is \<open>(((v + ((149*pos) mod 253) + 1) - 1) mod 254) + 1\<close>
  and lies in \<open>[1,254]\<close>: the code re-baselines the residue by one, so the result is never 0
  and can be 254.
\<close>

theorem Randomize253State2_formula:
  assumes "1 \<le> pos" and "pos \<le> 14412641"
  shows "uint (Randomize253State2 v pos)
           = (((uint v + ((149 * pos) mod 253) + 1) - 1) mod 254) + 1
         \<and> 1 \<le> uint (Randomize253State2 v pos)
         \<and> uint (Randomize253State2 v pos) \<le> 254"
proof -
  have r: "0 \<le> (149 * pos) mod 253" "(149 * pos) mod 253 < 253"
    by simp_all
  have u: "0 \<le> uint v" "uint v \<le> 255"
    using uint_byte_range [of v] by simp_all
  define t where "t = uint v + (149 * pos) mod 253"
  have t: "0 \<le> t" "t \<le> 507" using r u by (simp_all add: t_def)
  have "Randomize253State2_tmp v pos = (t mod 254) + 1"
  proof (cases "t + 1 > 254")
    case True
    then have "(t - 254) mod 254 = t - 254"
      using t by (intro mod_pos_pos_trivial) auto
    moreover have "(t - 254) mod 254 = t mod 254"
      by simp
    ultimately have "t mod 254 = t - 254"
      by simp
    then show ?thesis
      using True by (simp add: Randomize253State2_tmp_unfold [OF assms] t_def)
  next
    case False
    then have "t mod 254 = t" using t by simp
    then show ?thesis
      using False by (simp add: Randomize253State2_tmp_unfold [OF assms] t_def)
  qed
  moreover have "uint v + (149 * pos) mod 253 + 1 - 1 = t" by (simp add: t_def)
  ultimately show ?thesis
    using uint_Randomize253State2 [OF assms, of v] Randomize253State2_tmp_range [OF assms, of v]
    by simp
qed

theorem Randomize253State2_formula_witness:
  "(1::int) \<le> 1 \<and> (1::int) \<le> 14412641 \<and> uint (Randomize253State2 129 1) = 25
   \<and> (((uint (129::DmtxByte) + ((149 * 1) mod 253) + 1) - 1) mod 254) + 1 = (25::int)
   \<and> (1::int) \<le> 14412641 \<and> uint (Randomize253State2 129 14412641) = 158"
  using Randomize253State2_formula [of 1 129] Randomize253State2_formula [of 14412641 129]
  by simp

text \<open>
  Counterexample to claim C7 as stated: for the pad codeword 129 at position 1 the code
  returns 25, while \<open>((v + ((149*pos) mod 253) + 1) - 1) mod 254\<close> is 24; and for \<open>v = 1\<close>
  at position 163 the result is 254, outside \<open>[0,253]\<close>.
\<close>

theorem Randomize253State2_claimed_formula_fails:
  "uint (Randomize253State2 129 1) \<noteq> ((uint (129::DmtxByte) + ((149 * 1) mod 253) + 1) - 1) mod 254
   \<and> uint (Randomize253State2 1 163) = 254"
  by code_simp

text \<open>
  Claim C10 (as amended). For every codeword value and every position \<open>pos\<close> from 1 to
  14412641, the intermediate sum of \<^verbatim>\<open>Randomize253State2\<close> (after the reduction by 254) lies
  in \<open>[1,254]\<close>; so the assertion \<^verbatim>\<open>tmp >= 0 && tmp < 256\<close> holds, the returned byte is that
  sum, and a randomized pad byte is never 0.
\<close>

theorem Randomize253State2_assertion_holds:
  assumes "1 \<le> pos" and "pos \<le> 14412641"
  shows "1 \<le> Randomize253State2_tmp v pos \<and> Randomize253State2_tmp v pos \<le> 254
         \<and> (0 \<le> Randomize253State2_tmp v pos \<and> Randomize253State2_tmp v pos < 256)
         \<and> uint (Randomize253State2 v pos) = Randomize253State2_tmp v pos
         \<and> Randomize253State2 v pos \<noteq> 0"
proof -
  have r: "1 \<le> Randomize253State2_tmp v pos" "Randomize253State2_tmp v pos \<le> 254"
    using Randomize253State2_tmp_range [OF assms, of v] by simp_all
  have u: "uint (Randomize253State2 v pos) = Randomize253State2_tmp v pos"
    by (rule uint_Randomize253State2 [OF assms])
  have "Randomize253State2 v pos \<noteq> 0"
  proof
    assume "Randomize253State2 v pos = 0"
    then have "uint (Randomize253State2 v pos) = 0" by simp
    with u r show False by linarith
  qed
  with r u show ?thesis by simp
qed

theorem Randomize253State2_assertion_holds_witness:
  "(1::int) \<le> 4 \<and> (4::int) \<le> 14412641
   \<and> Randomize253State2_tmp 129 4 = 220 \<and> Randomize253State2 129 4 \<noteq> 0
   \<and> (1::int) \<le> 14412641 \<and> Randomize253State2_tmp 156 14412641 = 185"
  using Randomize253State2_assertion_holds [of 4 129]
    Randomize253State2_assertion_holds [of 14412641 156]
  by code_simp

text \<open>
  Counterexample to claim C10 as stated, for every position \<open>pos \<ge> 1\<close>: the product
  \<^verbatim>\<open>149 * cwPosition\<close> of the code is a 32-bit \<^verbatim>\<open>int\<close>, negative at position 14412642 and
  after. For the pad codeword 129 at position 14412774 the intermediate sum is -93, so the
  assertion \<^verbatim>\<open>tmp >= 0 && tmp < 256\<close> fails; and for the codeword 156 at position 14412642
  the sum and the byte returned are 0.
\<close>

theorem Randomize253State2_assertion_fails_beyond_int_range:
  "Randomize253State2_tmp 129 14412774 = - 93
   \<and> Randomize253State2_tmp 156 14412642 = 0
   \<and> Randomize253State2 156 14412642 = 0"
  by code_simp

section \<open>Properties of the stream primitives and of the ASCII encoder\<close>

lemma StreamOutput_upd [simp]:
  "StreamOutput (s\<lparr>outputChainValueCount := a\<rparr>) = StreamOutput s"
  "StreamOutput (s\<lparr>outputChainWordCount := b\<rparr>) = StreamOutput s"
  "StreamOutput (s\<lparr>inputNext := c\<rparr>) = StreamOutput s"
  "StreamOutput (s\<lparr>currentScheme := d\<rparr>) = StreamOutput s"
  "StreamOutput (s\<lparr>status := e\<rparr>) = StreamOutput s"
  "StreamOutput (s\<lparr>reason := f\<rparr>) = StreamOutput s"
  "StreamOutput (s\<lparr>sizeIdx := g\<rparr>) = StreamOutput s"
  by (simp_all add: StreamOutput_def)

lemma StreamOutput_Append:
  assumes "dmtxByteListHasCapacity (output_bl s)"
  shows "StreamOutput (StreamOutputChainAppend s v) = StreamOutput s @ [v]"
  using assms by (simp add: StreamOutput_def StreamOutputChainAppend_def)

lemma Append_fields:
  assumes "dmtxByteListHasCapacity (output_bl s)"
  shows "status (StreamOutputChainAppend s v) = status s"
    and "currentScheme (StreamOutputChainAppend s v) = currentScheme s"
    and "inputNext (StreamOutputChainAppend s v) = inputNext s"
    and "input_bl (StreamOutputChainAppend s v) = input_bl s"
    and "outputChainValueCount (StreamOutputChainAppend s v) = outputChainValueCount s"
    and "outputChainWordCount (StreamOutputChainAppend s v) = outputChainWordCount s + 1"
    and "length_bl (output_bl (StreamOutputChainAppend s v)) = length_bl (output_bl s) + 1"
    and "capacity (output_bl (StreamOutputChainAppend s v)) = capacity (output_bl s)"
    and "b_ptr (output_bl (StreamOutputChainAppend s v)) = b_ptr (output_bl s)"
  using assms by (simp_all add: StreamOutputChainAppend_def)

lemma EncodeValueAscii_ok:
  assumes "currentScheme s = DmtxSchemeAscii" "status s = DmtxStatusEncoding"
    and "length_bl (output_bl s) < capacity (output_bl s)"
  shows "StreamOutput (EncodeValueAscii s v) = StreamOutput s @ [v]"
    and "status (EncodeValueAscii s v) = DmtxStatusEncoding"
    and "currentScheme (EncodeValueAscii s v) = DmtxSchemeAscii"
    and "inputNext (EncodeValueAscii s v) = inputNext s"
    and "input_bl (EncodeValueAscii s v) = input_bl s"
    and "outputChainValueCount (EncodeValueAscii s v) = outputChainValueCount s + 1"
    and "outputChainWordCount (EncodeValueAscii s v) = outputChainWordCount s + 1"
    and "length_bl (output_bl (EncodeValueAscii s v)) = length_bl (output_bl s) + 1"
    and "capacity (output_bl (EncodeValueAscii s v)) = capacity (output_bl s)"
    and "b_ptr (output_bl (EncodeValueAscii s v)) = b_ptr (output_bl s)"
  using assms
  by (simp_all add: EncodeValueAscii_def Let_def StreamOutput_Append Append_fields
      dmtxByteListHasCapacity_def)

lemma uint_byte_of_int: "0 \<le> x \<Longrightarrow> x \<le> 255 \<Longrightarrow> uint (word_of_int x :: DmtxByte) = x"
  by (simp add: uint_word_of_int)

lemma AdvanceNext_ok:
  assumes "status s = DmtxStatusEncoding" "StreamInputHasNext s"
  shows "StreamInputAdvanceNext s
           = (mem s (b_ptr (input_bl s)) (inputNext s), s\<lparr>inputNext := inputNext s + 1\<rparr>)"
  using assms by (simp add: StreamInputAdvanceNext_def StreamInputPeekNext_def)

lemma PeekNext_ok:
  assumes "StreamInputHasNext s"
  shows "StreamInputPeekNext s = (mem s (b_ptr (input_bl s)) (inputNext s), s)"
  using assms by (simp add: StreamInputPeekNext_def)

text \<open>
  Claim C1. One call of \<^verbatim>\<open>EncodeNextChunkAscii\<close> on a stream in the ASCII scheme that is
  encoding, has input left and has room in its output buffer (one byte, two for an extended
  character). With \<open>v0\<close> and \<open>v1\<close> the next two unconsumed input bytes: if both exist and are
  digits, the one codeword \<open>10 * d1 + d2 + 130\<close> is appended (\<open>d1 = v0 - '0'\<close>,
  \<open>d2 = v1 - '0'\<close>) and two bytes are consumed; otherwise, if \<open>v0 \<le> 127\<close>, the one codeword
  \<open>v0 + 1\<close> is appended, and if \<open>v0 \<ge> 128\<close>, the upper shift 235 and then \<open>v0 - 127\<close> are
  appended, and one byte is consumed.
\<close>

theorem EncodeNextChunkAscii_step:
  fixes s :: DmtxEncodeStream
  defines "v0 \<equiv> mem s (b_ptr (input_bl s)) (inputNext s)"
    and "v1 \<equiv> mem s (b_ptr (input_bl s)) (inputNext s + 1)"
    and "s' \<equiv> EncodeNextChunkAscii s"
  assumes scheme: "currentScheme s = DmtxSchemeAscii"
    and enc: "status s = DmtxStatusEncoding"
    and more: "StreamInputHasNext s"
    and room: "length_bl (output_bl s) < capacity (output_bl s)"
  shows "(inputNext s + 1 < length_bl (input_bl s) \<and> ISDIGIT v0 \<and> ISDIGIT v1 \<longrightarrow>
            map uint (StreamOutput s')
              = map uint (StreamOutput s) @ [10 * (uint v0 - 48) + (uint v1 - 48) + 130]
            \<and> inputNext s' = inputNext s + 2 \<and> status s' = DmtxStatusEncoding)
       \<and> (\<not> (inputNext s + 1 < length_bl (input_bl s) \<and> ISDIGIT v0 \<and> ISDIGIT v1)
            \<and> uint v0 \<le> 127 \<longrightarrow>
            map uint (StreamOutput s') = map uint (StreamOutput s) @ [uint v0 + 1]
            \<and> inputNext s' = inputNext s + 1 \<and> status s' = DmtxStatusEncoding)
       \<and> (\<not> (inputNext s + 1 < length_bl (input_bl s) \<and> ISDIGIT v0 \<and> ISDIGIT v1)
            \<and> 128 \<le> uint v0
            \<and> length_bl (output_bl s) + 1 < capacity (output_bl s) \<longrightarrow>
            map uint (StreamOutput s') = map uint (StreamOutput s) @ [235, uint v0 - 127]
            \<and> inputNext s' = inputNext s + 1 \<and> status s' = DmtxStatusEncoding)"
proof -
  define s1 where "s1 = s\<lparr>inputNext := inputNext s + 1\<rparr>"
  have adv: "StreamInputAdvanceNext s = (v0, s1)"
    using AdvanceNext_ok [OF enc more] by (simp add: v0_def s1_def)
  have s1: "currentScheme s1 = DmtxSchemeAscii" "status s1 = DmtxStatusEncoding"
    "length_bl (output_bl s1) < capacity (output_bl s1)" "StreamOutput s1 = StreamOutput s"
    "inputNext s1 = inputNext s + 1" "output_bl s1 = output_bl s"
    using scheme enc room by (simp_all add: s1_def)
  have next1: "StreamInputHasNext s1 \<longleftrightarrow> inputNext s + 1 < length_bl (input_bl s)"
    by (simp add: StreamInputHasNext_def s1_def)
  have u0: "0 \<le> uint v0" "uint v0 \<le> 255"
    using uint_byte_range [of v0] by simp_all
  show ?thesis
  proof (cases "inputNext s + 1 < length_bl (input_bl s) \<and> ISDIGIT v0 \<and> ISDIGIT v1")
    case True
    then have hn: "StreamInputHasNext s1" using next1 by simp
    have peek: "StreamInputPeekNext s1 = (v1, s1)"
      using PeekNext_ok [OF hn] by (simp add: v1_def s1_def)
    define s3 where "s3 = s1\<lparr>inputNext := inputNext s1 + 1\<rparr>"
    have adv2: "StreamInputAdvanceNext s1 = (v1, s3)"
      using AdvanceNext_ok [OF s1(2) hn] by (simp add: v1_def s1_def s3_def)
    have s3: "currentScheme s3 = DmtxSchemeAscii" "status s3 = DmtxStatusEncoding"
      "length_bl (output_bl s3) < capacity (output_bl s3)" "StreamOutput s3 = StreamOutput s"
      "inputNext s3 = inputNext s + 2"
      using s1 by (simp_all add: s3_def)
    define cw :: DmtxByte where "cw = word_of_int (10 * (uint v0 - 48) + (uint v1 - 48) + 130)"
    have eq: "s' = EncodeValueAscii s3 cw"
      using True more s1(2) s3(2) hn
      by (simp add: cw_def s'_def EncodeNextChunkAscii_def adv peek adv2)
    have rng: "0 \<le> 10 * (uint v0 - 48) + (uint v1 - 48) + 130"
      "10 * (uint v0 - 48) + (uint v1 - 48) + 130 \<le> 255"
      using True by (simp_all add: ISDIGIT_def)
    have cw: "uint cw = 10 * (uint v0 - 48) + (uint v1 - 48) + 130"
      unfolding cw_def by (rule uint_byte_of_int [OF rng])
    show ?thesis
      using True
      by (simp add: eq EncodeValueAscii_ok [OF s3(1,2,3)] s3 cw)
  next
    case np: False
    have sel: "(if StreamInputHasNext s1
                then (let (v, s) = StreamInputPeekNext s1 in (v, True, s))
                else (0, False, s1)) = (if StreamInputHasNext s1 then (v1, True, s1) else (0, False, s1))"
      using PeekNext_ok [of s1] by (simp add: v1_def s1_def)
    have nd: "\<not> (ISDIGIT v0 \<and> StreamInputHasNext s1 \<and> ISDIGIT v1)"
      using np next1 by auto
    show ?thesis
    proof (cases "uint v0 < 128")
      case True
      define cw :: DmtxByte where "cw = word_of_int (uint v0 + 1)"
      have eq: "s' = EncodeValueAscii s1 cw"
        using nd True more s1(2)
        by (auto simp add: cw_def s'_def EncodeNextChunkAscii_def adv sel)
      have rng: "0 \<le> uint v0 + 1" "uint v0 + 1 \<le> 255" using True u0 by simp_all
      have cw: "uint cw = uint v0 + 1"
        unfolding cw_def by (rule uint_byte_of_int [OF rng])
      show ?thesis
        using True np
        by (simp add: eq EncodeValueAscii_ok [OF s1(1,2,3)] s1 cw)
    next
      case hi: False
      define s3 where "s3 = EncodeValueAscii s1 DmtxValueAsciiUpperShift"
      have s3: "currentScheme s3 = DmtxSchemeAscii" "status s3 = DmtxStatusEncoding"
        "StreamOutput s3 = StreamOutput s @ [235]" "inputNext s3 = inputNext s + 1"
        "length_bl (output_bl s3) = length_bl (output_bl s) + 1"
        "capacity (output_bl s3) = capacity (output_bl s)"
        by (simp_all add: s3_def EncodeValueAscii_ok [OF s1(1,2,3)] s1 DmtxValueAsciiUpperShift_def)
      define cw :: DmtxByte where "cw = word_of_int (uint v0 - 127)"
      have eq: "s' = EncodeValueAscii s3 cw"
        using nd hi more s1(2) s3(2)
        by (auto simp add: cw_def s'_def EncodeNextChunkAscii_def adv sel s3_def Let_def)
      have rng: "0 \<le> uint v0 - 127" "uint v0 - 127 \<le> 255" using hi u0 by simp_all
      have cw: "uint cw = uint v0 - 127"
        unfolding cw_def by (rule uint_byte_of_int [OF rng])
      show ?thesis
      proof (cases "length_bl (output_bl s) + 1 < capacity (output_bl s)")
        case True
        then have r3: "length_bl (output_bl s3) < capacity (output_bl s3)"
          by (simp add: s3)
        show ?thesis
          using hi np
          by (simp add: eq EncodeValueAscii_ok [OF s3(1,2) r3] s3 cw)
      next
        case False
        with hi np show ?thesis by auto
      qed
    qed
  qed
qed

theorem EncodeNextChunkAscii_step_witness:
  "map uint (StreamOutput (EncodeNextChunkAscii (StreamInit [0x31, 0x32] 4))) = [142]
   \<and> inputNext (EncodeNextChunkAscii (StreamInit [0x31, 0x32] 4)) = 2
   \<and> map uint (StreamOutput (EncodeNextChunkAscii (StreamInit [0x41] 4))) = [66]
   \<and> inputNext (EncodeNextChunkAscii (StreamInit [0x41] 4)) = 1
   \<and> map uint (StreamOutput (EncodeNextChunkAscii (StreamInit [0x80] 4))) = [235, 1]
   \<and> inputNext (EncodeNextChunkAscii (StreamInit [0x80] 4)) = 1"
  using EncodeNextChunkAscii_step [of "StreamInit [0x31, 0x32] 4"]
    EncodeNextChunkAscii_step [of "StreamInit [0x41] 4"]
    EncodeNextChunkAscii_step [of "StreamInit [0x80] 4"]
  by (simp add: StreamInit_def StreamInputHasNext_def dmtxByteListBuild_def ISDIGIT_def
      StreamOutput_def)

section \<open>Properties of the C40/Text/X12 packing\<close>

lemma Append_room:
  assumes "length_bl (output_bl s) < capacity (output_bl s)"
  shows "status (StreamOutputChainAppend s v) = status s"
    and "currentScheme (StreamOutputChainAppend s v) = currentScheme s"
    and "inputNext (StreamOutputChainAppend s v) = inputNext s"
    and "input_bl (StreamOutputChainAppend s v) = input_bl s"
    and "outputChainValueCount (StreamOutputChainAppend s v) = outputChainValueCount s"
    and "outputChainWordCount (StreamOutputChainAppend s v) = outputChainWordCount s + 1"
    and "length_bl (output_bl (StreamOutputChainAppend s v)) = length_bl (output_bl s) + 1"
    and "capacity (output_bl (StreamOutputChainAppend s v)) = capacity (output_bl s)"
    and "b_ptr (output_bl (StreamOutputChainAppend s v)) = b_ptr (output_bl s)"
  using assms by (simp_all add: StreamOutputChainAppend_def dmtxByteListHasCapacity_def)

lemma StreamOutput_Append_room:
  assumes "length_bl (output_bl s) < capacity (output_bl s)"
  shows "StreamOutput (StreamOutputChainAppend s v) = StreamOutput s @ [v]"
  using assms by (simp add: StreamOutput_Append dmtxByteListHasCapacity_def)

text \<open>
  Claim C3. A call of \<^verbatim>\<open>EncodeValuesCTX\<close> that flushes a triplet of CTX values \<open>v0\<close>,
  \<open>v1\<close>, \<open>v2\<close> (each at most 39), on a stream that is encoding in C40, Text or X12 and has
  room for two bytes, appends exactly the two codewords \<open>P div 256\<close> and \<open>P mod 256\<close>, where
  \<open>P = 1600 * v0 + 40 * v1 + v2 + 1\<close>, and increases \<open>output_chain_value_count\<close> by exactly 3.
\<close>

theorem EncodeValuesCTX_triplet:
  fixes s :: DmtxEncodeStream and v0 v1 v2 :: DmtxByte
  defines "P \<equiv> 1600 * uint v0 + 40 * uint v1 + uint v2 + 1"
  assumes scheme: "currentScheme s = DmtxSchemeC40 \<or> currentScheme s = DmtxSchemeText
                   \<or> currentScheme s = DmtxSchemeX12"
    and enc: "status s = DmtxStatusEncoding"
    and vals: "uint v0 \<le> 39" "uint v1 \<le> 39" "uint v2 \<le> 39"
    and room: "length_bl (output_bl s) + 2 \<le> capacity (output_bl s)"
  shows "map uint (StreamOutput (EncodeValuesCTX s [v0, v1, v2]))
           = map uint (StreamOutput s) @ [P div 256, P mod 256]
       \<and> outputChainValueCount (EncodeValuesCTX s [v0, v1, v2]) = outputChainValueCount s + 3
       \<and> outputChainWordCount (EncodeValuesCTX s [v0, v1, v2]) = outputChainWordCount s + 2
       \<and> status (EncodeValuesCTX s [v0, v1, v2]) = DmtxStatusEncoding
       \<and> inputNext (EncodeValuesCTX s [v0, v1, v2]) = inputNext s"
proof -
  have u: "0 \<le> uint v0" "0 \<le> uint v1" "0 \<le> uint v2" by simp_all
  have P: "1 \<le> P" "P \<le> 64000" using u vals by (simp_all add: P_def)
  have sd: "P sdiv 256 = P div 256" "P smod 256 = P mod 256"
    using P by (simp_all add: signed_divide_int_def signed_modulo_int_def sgn_if)
  define cw0 :: DmtxByte where "cw0 = word_of_int (P sdiv 256)"
  define cw1 :: DmtxByte where "cw1 = word_of_int (P smod 256)"
  have d: "0 \<le> P div 256" "P div 256 \<le> 255" using P by simp_all
  have m: "0 \<le> P mod 256" "P mod 256 \<le> 255" by simp_all
  have cw0: "uint cw0 = P div 256"
    unfolding cw0_def sd by (rule uint_byte_of_int [OF d])
  have cw1: "uint cw1 = P mod 256"
    unfolding cw1_def sd by (rule uint_byte_of_int [OF m])
  have eq: "EncodeValuesCTX s [v0, v1, v2]
              = (StreamOutputChainAppend (StreamOutputChainAppend s cw0) cw1)
                  \<lparr>outputChainValueCount := outputChainValueCount s + 3\<rparr>"
    using scheme enc room
    by (auto simp add: EncodeValuesCTX_def Let_def P_def cw0_def cw1_def Append_room)
  show ?thesis
    using room
    by (simp add: eq Append_room StreamOutput_Append_room cw0 cw1 enc)
qed

theorem EncodeValuesCTX_triplet_witness:
  "map uint (StreamOutput (EncodeValuesCTX
       ((StreamInit [] 4)\<lparr>currentScheme := DmtxSchemeC40\<rparr>) [14, 22, 26])) = [91, 11]
   \<and> outputChainValueCount (EncodeValuesCTX
       ((StreamInit [] 4)\<lparr>currentScheme := DmtxSchemeC40\<rparr>) [14, 22, 26]) = 3"
  using EncodeValuesCTX_triplet [of "(StreamInit [] 4)\<lparr>currentScheme := DmtxSchemeC40\<rparr>" 14 22 26]
  by (simp add: StreamInit_def dmtxByteListBuild_def StreamOutput_def)

section \<open>Properties of the EDIFACT packing\<close>

lemma RemoveLast_ok:
  assumes "0 < outputChainWordCount s" "0 < length_bl (output_bl s)"
  shows "StreamOutputChainRemoveLast s
           = (last (StreamOutput s),
              s\<lparr>output_bl := (output_bl s)\<lparr>length_bl := length_bl (output_bl s) - 1\<rparr>,
                outputChainWordCount := outputChainWordCount s - 1\<rparr>)"
  using assms
  by (simp add: StreamOutputChainRemoveLast_def StreamOutput_def last_map)

lemma StreamOutput_shorter:
  "StreamOutput (s\<lparr>output_bl := (output_bl s)\<lparr>length_bl := length_bl (output_bl s) - 1\<rparr>\<rparr>)
     = butlast (StreamOutput s)"
  by (simp add: StreamOutput_def butlast_conv_take take_map)

text \<open>
  Claim C4. A call of \<^verbatim>\<open>EncodeValueEdifact\<close> with a value \<open>v\<close> in \<open>[31,94]\<close>, on a stream
  that is encoding in EDIFACT, where \<open>k\<close> is \<open>output_chain_value_count mod 4\<close> and
  \<open>ev = (v & 0x3F) << 2\<close> as a byte. In phase 0 the byte \<open>ev\<close> is appended; in phase 1 the last
  output byte is OR-ed with \<open>ev >> 6\<close> and the byte \<open>ev << 2\<close> is appended; in phase 2 the last
  byte is OR-ed with \<open>ev >> 4\<close> and \<open>ev << 4\<close> is appended; in phase 3 the last byte is OR-ed
  with \<open>ev >> 2\<close> and nothing is appended. In every phase \<open>output_chain_value_count\<close> grows by
  one, and the output length and \<open>output_chain_word_count\<close> grow by one in phases 0, 1, 2 and
  by nothing in phase 3. (The chain holds a byte to OR into in phases 1 to 3, and the buffer has
  room for the byte appended.)
\<close>

theorem EncodeValueEdifact_phase:
  fixes s :: DmtxEncodeStream and v :: DmtxByte
  defines "ev \<equiv> push_bit 2 (v AND 0x3f)"
    and "s' \<equiv> EncodeValueEdifact s v"
    and "out \<equiv> StreamOutput s"
    and "k \<equiv> outputChainValueCount s mod 4"
  assumes scheme: "currentScheme s = DmtxSchemeEdifact"
    and enc: "status s = DmtxStatusEncoding"
    and val: "31 \<le> uint v" "uint v \<le> 94"
    and count: "0 \<le> outputChainValueCount s"
    and chain: "k \<noteq> 0 \<longrightarrow> 0 < outputChainWordCount s \<and> 0 < length_bl (output_bl s)"
    and room: "if k = 3 then length_bl (output_bl s) \<le> capacity (output_bl s)
               else length_bl (output_bl s) < capacity (output_bl s)"
  shows "(k = 0 \<longrightarrow> StreamOutput s' = out @ [ev])
       \<and> (k = 1 \<longrightarrow> StreamOutput s' = butlast out @ [last out OR drop_bit 6 ev, push_bit 2 ev])
       \<and> (k = 2 \<longrightarrow> StreamOutput s' = butlast out @ [last out OR drop_bit 4 ev, push_bit 4 ev])
       \<and> (k = 3 \<longrightarrow> StreamOutput s' = butlast out @ [last out OR drop_bit 2 ev])
       \<and> outputChainValueCount s' = outputChainValueCount s + 1
       \<and> length_bl (output_bl s') = length_bl (output_bl s) + (if k = 3 then 0 else 1)
       \<and> outputChainWordCount s' = outputChainWordCount s + (if k = 3 then 0 else 1)
       \<and> status s' = DmtxStatusEncoding"
proof -
  have sm: "outputChainValueCount s smod 4 = k"
    using count by (simp add: k_def smod_nonneg_pos)
  have k: "k = 0 \<or> k = 1 \<or> k = 2 \<or> k = 3"
    unfolding k_def by presburger
  have rng: "\<not> (uint v < 31 \<or> uint v > 94)" using val by simp
  show ?thesis
  proof (cases "k = 0")
    case True
    then show ?thesis
      using scheme enc rng room
      by (simp add: s'_def out_def EncodeValueEdifact_def Let_def sm ev_def
          Append_room StreamOutput_Append_room)
  next
    case False
    then have ne: "0 < outputChainWordCount s" "0 < length_bl (output_bl s)"
      using chain by simp_all
    define s1 where "s1 = s\<lparr>output_bl := (output_bl s)\<lparr>length_bl := length_bl (output_bl s) - 1\<rparr>,
                outputChainWordCount := outputChainWordCount s - 1\<rparr>"
    have rl: "StreamOutputChainRemoveLast s = (last out, s1)"
      unfolding out_def s1_def by (rule RemoveLast_ok [OF ne])
    have s1: "status s1 = DmtxStatusEncoding"
      "length_bl (output_bl s1) = length_bl (output_bl s) - 1"
      "capacity (output_bl s1) = capacity (output_bl s)"
      "outputChainValueCount s1 = outputChainValueCount s"
      "outputChainWordCount s1 = outputChainWordCount s - 1"
      "StreamOutput s1 = butlast out"
      using enc StreamOutput_shorter [of s] by (simp_all add: s1_def out_def)
    have r1: "length_bl (output_bl s1) < capacity (output_bl s1)"
      using room ne by (auto simp: s1 split: if_splits)
    have r2: "k \<noteq> 3 \<Longrightarrow> length_bl (output_bl s1) + 1 < capacity (output_bl s1)"
      using room ne by (auto simp: s1 split: if_splits)
    from k False consider "k = 1" | "k = 2" | "k = 3" by auto
    then show ?thesis
    proof cases
      case 1
      then show ?thesis
        using scheme enc rng r1 r2 ne
        by (simp add: s'_def EncodeValueEdifact_def Let_def sm rl ev_def
            Append_room StreamOutput_Append_room s1)
    next
      case 2
      then show ?thesis
        using scheme enc rng r1 r2 ne
        by (simp add: s'_def EncodeValueEdifact_def Let_def sm rl ev_def
            Append_room StreamOutput_Append_room s1)
    next
      case 3
      then show ?thesis
        using scheme enc rng r1 ne
        by (simp add: s'_def EncodeValueEdifact_def Let_def sm rl ev_def
            Append_room StreamOutput_Append_room s1)
    qed
  qed
qed

theorem EncodeValueEdifact_phase_witness:
  "StreamOutput (EncodeValueEdifact ((StreamInit [] 8)\<lparr>currentScheme := DmtxSchemeEdifact\<rparr>) 0x41)
     = [4]
   \<and> StreamOutput (EncodeValueEdifact
        ((StreamInit [] 8)\<lparr>currentScheme := DmtxSchemeEdifact, output_bl := \<lparr>length_bl = 1, capacity = 8, b_ptr = 1\<rparr>,
            outputChainValueCount := 1, outputChainWordCount := 1, mem := (\<lambda>a i. 4)\<rparr>) 0x5E)
     = [5, 224]
   \<and> StreamOutput (EncodeValueEdifact
        ((StreamInit [] 8)\<lparr>currentScheme := DmtxSchemeEdifact, output_bl := \<lparr>length_bl = 1, capacity = 8, b_ptr = 1\<rparr>,
            outputChainValueCount := 2, outputChainWordCount := 1, mem := (\<lambda>a i. 32)\<rparr>) 0x5E)
     = [39, 128]
   \<and> StreamOutput (EncodeValueEdifact
        ((StreamInit [] 8)\<lparr>currentScheme := DmtxSchemeEdifact, output_bl := \<lparr>length_bl = 1, capacity = 8, b_ptr = 1\<rparr>,
            outputChainValueCount := 3, outputChainWordCount := 1, mem := (\<lambda>a i. 192)\<rparr>) 0x44)
     = [196]"
  using EncodeValueEdifact_phase [of "(StreamInit [] 8)\<lparr>currentScheme := DmtxSchemeEdifact\<rparr>" "0x41"]
    EncodeValueEdifact_phase [of "(StreamInit [] 8)\<lparr>currentScheme := DmtxSchemeEdifact, output_bl := \<lparr>length_bl = 1, capacity = 8, b_ptr = 1\<rparr>,
            outputChainValueCount := 1, outputChainWordCount := 1, mem := (\<lambda>a i. 4)\<rparr>" "0x5E"]
    EncodeValueEdifact_phase [of "(StreamInit [] 8)\<lparr>currentScheme := DmtxSchemeEdifact, output_bl := \<lparr>length_bl = 1, capacity = 8, b_ptr = 1\<rparr>,
            outputChainValueCount := 2, outputChainWordCount := 1, mem := (\<lambda>a i. 32)\<rparr>" "0x5E"]
    EncodeValueEdifact_phase [of "(StreamInit [] 8)\<lparr>currentScheme := DmtxSchemeEdifact, output_bl := \<lparr>length_bl = 1, capacity = 8, b_ptr = 1\<rparr>,
            outputChainValueCount := 3, outputChainWordCount := 1, mem := (\<lambda>a i. 192)\<rparr>" "0x44"]
  by code_simp

section \<open>The scratch ASCII probe\<close>

lemma only_output_written_refl [simp]: "only_output_written s s"
  by (simp add: only_output_written_def)

lemma only_output_written_trans:
  "only_output_written s s1 \<Longrightarrow> only_output_written s1 s2 \<Longrightarrow> only_output_written s s2"
  by (simp add: only_output_written_def)

lemma only_output_written_Append: "only_output_written s (StreamOutputChainAppend s v)"
  by (simp add: only_output_written_def StreamOutputChainAppend_def StreamMarkFatal_def)

lemma only_output_written_EncodeValueAscii: "only_output_written s (EncodeValueAscii s v)"
  using only_output_written_Append [of s v]
  by (simp add: only_output_written_def EncodeValueAscii_def StreamMarkFatal_def Let_def)

lemma only_output_written_AdvanceNext:
  "only_output_written s (snd (StreamInputAdvanceNext s))"
  by (simp add: only_output_written_def StreamInputAdvanceNext_def StreamInputPeekNext_def
      StreamMarkFatal_def)

lemma only_output_written_PeekNext:
  "only_output_written s (snd (StreamInputPeekNext s))"
  by (simp add: only_output_written_def StreamInputPeekNext_def StreamMarkFatal_def)

lemma only_output_written_EncodeNextChunkAscii:
  "only_output_written s (EncodeNextChunkAscii s)"
proof (cases "StreamInputHasNext s")
  case False
  then show ?thesis by (simp add: EncodeNextChunkAscii_def)
next
  case True
  obtain v0 s1 where a: "StreamInputAdvanceNext s = (v0, s1)" by (cases "StreamInputAdvanceNext s")
  have w1: "only_output_written s s1"
    using only_output_written_AdvanceNext [of s] by (simp add: a)
  obtain v1 s2 where p: "StreamInputPeekNext s1 = (v1, s2)" by (cases "StreamInputPeekNext s1")
  have w2: "only_output_written s s2"
    using only_output_written_PeekNext [of s1] w1 by (auto simp: p intro: only_output_written_trans)
  obtain v s3 where a2: "StreamInputAdvanceNext s2 = (v, s3)" by (cases "StreamInputAdvanceNext s2")
  have w3: "only_output_written s s3"
    using only_output_written_AdvanceNext [of s2] w2 by (auto simp: a2 intro: only_output_written_trans)
  obtain v' s3' where a3: "StreamInputAdvanceNext s1 = (v', s3')" by (cases "StreamInputAdvanceNext s1")
  have w3': "only_output_written s s3'"
    using only_output_written_AdvanceNext [of s1] w1 by (auto simp: a3 intro: only_output_written_trans)
  have e: "only_output_written s (EncodeValueAscii t c)" if "only_output_written s t" for t c
    using that only_output_written_EncodeValueAscii [of t c] by (rule only_output_written_trans)
  show ?thesis
    using True w1 w2 w3 w3'
    by (auto simp: EncodeNextChunkAscii_def a p a2 a3 Let_def intro!: e)
qed

lemma EncodeTmpRemainingInAscii_loop_frame:
  assumes "EncodeTmpRemainingInAscii_loop s = Some r"
  shows "only_output_written s r"
proof (rule EncodeTmpRemainingInAscii_loop.raw_induct [where P = only_output_written, OF _ assms],
    goal_cases)
  case (1 loop s r)
  show ?case
  proof (cases "dmtxByteListHasCapacity (output_bl s) \<and> StreamInputHasNext s")
    case True
    then have "loop (EncodeNextChunkAscii s) = Some r" using 1(2) by simp
    then have "only_output_written (EncodeNextChunkAscii s) r" by (rule 1(1))
    with only_output_written_EncodeNextChunkAscii [of s] show ?thesis
      by (rule only_output_written_trans)
  next
    case False
    then have "r = s" using 1(2) by (auto split: if_splits)
    then show ?thesis by simp
  qed
qed

lemma EncodeNextChunkAscii_progress:
  assumes "currentScheme s = DmtxSchemeAscii" "status s = DmtxStatusEncoding"
    and "dmtxByteListHasCapacity (output_bl s)" "StreamInputHasNext s"
  shows "currentScheme (EncodeNextChunkAscii s) = DmtxSchemeAscii"
    and "status (EncodeNextChunkAscii s) = DmtxStatusEncoding
         \<or> \<not> dmtxByteListHasCapacity (output_bl (EncodeNextChunkAscii s))"
    and "length_bl (input_bl (EncodeNextChunkAscii s)) - inputNext (EncodeNextChunkAscii s)
           < length_bl (input_bl s) - inputNext s"
  using assms
  by (auto simp: EncodeNextChunkAscii_def StreamInputAdvanceNext_def StreamInputPeekNext_def
      StreamInputHasNext_def EncodeValueAscii_def StreamOutputChainAppend_def StreamMarkFatal_def
      dmtxByteListHasCapacity_def Let_def split: if_splits)

lemma EncodeTmpRemainingInAscii_loop_total:
  assumes "currentScheme s = DmtxSchemeAscii"
    and "status s = DmtxStatusEncoding \<or> \<not> dmtxByteListHasCapacity (output_bl s)"
  shows "\<exists>r. EncodeTmpRemainingInAscii_loop s = Some r"
  using assms
proof (induction "length_bl (input_bl s) - inputNext s" arbitrary: s rule: less_induct)
  case less
  show ?case
  proof (cases "dmtxByteListHasCapacity (output_bl s) \<and> StreamInputHasNext s")
    case True
    then have enc: "status s = DmtxStatusEncoding" using less.prems by auto
    note step = EncodeNextChunkAscii_progress [OF less.prems(1) enc conjunct1 [OF True] conjunct2 [OF True]]
    from less.hyps [OF step(3) step(1) step(2)]
    obtain r where "EncodeTmpRemainingInAscii_loop (EncodeNextChunkAscii s) = Some r" by blast
    then show ?thesis
      using True by (subst EncodeTmpRemainingInAscii_loop.simps) simp
  next
    case False
    then show ?thesis
      by (subst EncodeTmpRemainingInAscii_loop.simps) auto
  qed
qed

text \<open>
  Claim C9. A call of \<^verbatim>\<open>EncodeTmpRemainingInAscii\<close> whose scratch storage is not the
  stream's own output buffer (the local array of \<^verbatim>\<open>CompleteIfDoneEdifact\<close> is not) returns,
  and leaves the real stream unchanged, whether the probe passes or fails: the output codewords
  and the output list, the input list and cursor, the current scheme, the status, both chain
  counters, the size index and the reason are after the call what they were before it, and no
  storage but the scratch one is written.
\<close>

theorem EncodeTmpRemainingInAscii_frame:
  assumes "storage \<noteq> b_ptr (output_bl s)"
  shows "\<exists>outputTmp passFail s'.
           EncodeTmpRemainingInAscii s storage cap = Some (outputTmp, passFail, s')
           \<and> StreamOutput s' = StreamOutput s
           \<and> output_bl s' = output_bl s
           \<and> input_bl s' = input_bl s
           \<and> inputNext s' = inputNext s
           \<and> currentScheme s' = currentScheme s
           \<and> status s' = status s
           \<and> outputChainValueCount s' = outputChainValueCount s
           \<and> outputChainWordCount s' = outputChainWordCount s
           \<and> sizeIdx s' = sizeIdx s
           \<and> reason s' = reason s
           \<and> (\<forall>a. a \<noteq> storage \<longrightarrow> mem s' a = mem s a)"
proof -
  define s0 where "s0 = s\<lparr>currentScheme := DmtxSchemeAscii,
                 outputChainValueCount := 0,
                 outputChainWordCount := 0,
                 reason := DmtxUndefined,
                 sizeIdx := DmtxUndefined,
                 status := DmtxStatusEncoding,
                 output_bl := dmtxByteListBuild storage cap\<rparr>"
  have "\<exists>r. EncodeTmpRemainingInAscii_loop s0 = Some r"
    by (rule EncodeTmpRemainingInAscii_loop_total) (simp_all add: s0_def)
  then obtain r where r: "EncodeTmpRemainingInAscii_loop s0 = Some r" by blast
  have fr: "only_output_written s0 r"
    using r by (rule EncodeTmpRemainingInAscii_loop_frame)
  have m: "mem r a = mem s a" if "a \<noteq> storage" for a
    using fr that by (simp add: only_output_written_def s0_def dmtxByteListBuild_def)
  have res: "EncodeTmpRemainingInAscii s storage cap
               = Some (output_bl r,
                       if status r = DmtxStatusEncoding then DmtxPass else DmtxFail,
                       s\<lparr>mem := mem r\<rparr>)"
    using r by (simp add: EncodeTmpRemainingInAscii_def s0_def)
  have out: "StreamOutput (s\<lparr>mem := mem r\<rparr>) = StreamOutput s"
    using m [of "b_ptr (output_bl s)"] assms by (simp add: StreamOutput_def)
  show ?thesis
    using res out m by simp
qed

theorem EncodeTmpRemainingInAscii_frame_witness:
  "(2::nat) \<noteq> b_ptr (output_bl (StreamInit [0x41, 0x80, 0x42] 8))
   \<and> (\<exists>outputTmp passFail s'.
           EncodeTmpRemainingInAscii (StreamInit [0x41, 0x80, 0x42] 8) 2 3 = Some (outputTmp, passFail, s')
           \<and> StreamOutput s' = StreamOutput (StreamInit [0x41, 0x80, 0x42] 8)
           \<and> inputNext s' = 0
           \<and> status s' = DmtxStatusEncoding)"
  using EncodeTmpRemainingInAscii_frame [of 2 "StreamInit [0x41, 0x80, 0x42] 8" 3]
  by (auto simp add: StreamInit_def dmtxByteListBuild_def)

section \<open>The Base 256 header\<close>


lemma UpdateBase256ChainHeader_encode_cases:
  assumes "status (UpdateBase256ChainHeader_encode tbl t p hi L hbc) = DmtxStatusEncoding"
  defines "r \<equiv> UpdateBase256ChainHeader_encode tbl t p hi L hbc"
  shows "0 \<le> hi \<and> hi < int (length_bl (output_bl t)) \<and> output_bl r = output_bl t
         \<and> outputChainWordCount r = outputChainWordCount t
         \<and> outputChainValueCount r = outputChainValueCount t
         \<and> ((hbc = 1 \<and> p \<noteq> DmtxUndefined \<and> SymbolDataWords tbl p = int (length_bl (output_bl t))
               \<and> mem r (b_ptr (output_bl t)) (nat hi) = Randomize255State2 0 (hi + 1))
            \<or> (hbc = 1 \<and> p = DmtxUndefined
               \<and> mem r (b_ptr (output_bl t)) (nat hi) = Randomize255State2 (word_of_int L) (hi + 1))
            \<or> (hbc = 2 \<and> p = DmtxUndefined \<and> hi + 1 < int (length_bl (output_bl t))
               \<and> mem r (b_ptr (output_bl t)) (nat hi)
                   = Randomize255State2 (word_of_int (L sdiv 250 + 249)) (hi + 1)
               \<and> mem r (b_ptr (output_bl t)) (nat hi + 1)
                   = Randomize255State2 (word_of_int (L smod 250)) (hi + 2)))"
  using assms(1) unfolding r_def
  by (auto simp: UpdateBase256ChainHeader_encode_def StreamOutputSet_def StreamMarkFatal_def
      Let_def nat_add_distrib split: if_splits)







section \<open>Bytes that X12 cannot represent\<close>

text \<open>
  Claim C6 says that a byte outside the X12 set marks the stream Invalid. The code does not:
  for a byte above 127 \<^verbatim>\<open>PushCTXValues\<close> returns \<^verbatim>\<open>DmtxFail\<close> with nothing pushed (next to
  the comment "shouldn't this be an error?"), for any other byte outside the set it returns
  \<^verbatim>\<open>DmtxPass\<close> with nothing pushed, and \<^verbatim>\<open>EncodeNextChunkCTX\<close> ignores the value returned.
  The byte is consumed, no value is produced, and the stream goes on encoding: the input
  \<open>0x80\<close> alone encodes to a complete symbol (X12 latch, unlatch, latch) that does not hold
  the byte.
\<close>

theorem X12_unrepresentable_byte_consumed:
  "PushCTXValues 4 [] 128 DmtxSchemeX12 = Some (DmtxFail, [])
   \<and> PushCTXValues 4 [] 97 DmtxSchemeX12 = Some (DmtxPass, [])
   \<and> map_option (\<lambda>s. (status s, inputNext s, StreamOutput s, outputChainValueCount s))
         (EncodeNextChunkCTX SquareSymbols
            ((StreamInit [0x80, 0x41] 8)\<lparr>currentScheme := DmtxSchemeX12\<rparr>) DmtxSymbolSquareAuto)
       = Some (DmtxStatusEncoding, 1, [], 0)
   \<and> map_option (\<lambda>(passFail, s). (passFail, status s, inputNext s, StreamOutput s))
         (EncodeSingleScheme2 SquareSymbols (StreamInit [0x80] 8) DmtxSchemeX12 DmtxSymbolSquareAuto)
       = Some (DmtxPass, DmtxStatusComplete, 1, [238, 254, 238])"
  by code_simp

theorem X12_unrepresentable_byte_consumed_witness:
  "\<exists>s. EncodeSingleScheme2 SquareSymbols (StreamInit [0x80] 8) DmtxSchemeX12 DmtxSymbolSquareAuto
          = Some (DmtxPass, s)
        \<and> status s = DmtxStatusComplete \<and> inputNext s = 1 \<and> StreamOutput s = [238, 254, 238]"
proof -
  from X12_unrepresentable_byte_consumed
  have r: "map_option (\<lambda>(passFail, s). (passFail, status s, inputNext s, StreamOutput s))
         (EncodeSingleScheme2 SquareSymbols (StreamInit [0x80] 8) DmtxSchemeX12 DmtxSymbolSquareAuto)
       = Some (DmtxPass, DmtxStatusComplete, 1, [238, 254, 238])"
    by (elim conjE)
  then obtain passFail s where
    e: "EncodeSingleScheme2 SquareSymbols (StreamInit [0x80] 8) DmtxSchemeX12 DmtxSymbolSquareAuto
          = Some (passFail, s)"
      "passFail = DmtxPass" "status s = DmtxStatusComplete" "inputNext s = 1"
      "StreamOutput s = [238, 254, 238]"
    by (cases "EncodeSingleScheme2 SquareSymbols (StreamInit [0x80] 8) DmtxSchemeX12
                 DmtxSymbolSquareAuto") auto
  then show ?thesis
    by (intro exI [of _ s]) simp
qed

section \<open>Digit pairs and padding\<close>

lemma length_StreamOutput [simp]: "length (StreamOutput s) = length_bl (output_bl s)"
  by (simp add: StreamOutput_def)

lemma EncodeNextChunkAscii_digit_pair:
  assumes "currentScheme s = DmtxSchemeAscii" "status s = DmtxStatusEncoding"
    and "inputNext s + 1 < length_bl (input_bl s)"
    and "ISDIGIT (mem s (b_ptr (input_bl s)) (inputNext s))"
    and "ISDIGIT (mem s (b_ptr (input_bl s)) (inputNext s + 1))"
  shows "EncodeNextChunkAscii s
           = EncodeValueAscii (s\<lparr>inputNext := inputNext s + 2\<rparr>)
               (word_of_int (10 * (uint (mem s (b_ptr (input_bl s)) (inputNext s)) - 48)
                  + (uint (mem s (b_ptr (input_bl s)) (inputNext s + 1)) - 48) + 130))"
proof -
  have more: "StreamInputHasNext s" using assms(3) by (simp add: StreamInputHasNext_def)
  define s1 where "s1 = s\<lparr>inputNext := inputNext s + 1\<rparr>"
  have adv: "StreamInputAdvanceNext s = (mem s (b_ptr (input_bl s)) (inputNext s), s1)"
    using AdvanceNext_ok [OF assms(2) more] by (simp add: s1_def)
  have hn: "StreamInputHasNext s1" using assms(3) by (simp add: StreamInputHasNext_def s1_def)
  have e1: "status s1 = DmtxStatusEncoding" using assms(2) by (simp add: s1_def)
  have peek: "StreamInputPeekNext s1 = (mem s (b_ptr (input_bl s)) (inputNext s + 1), s1)"
    using PeekNext_ok [OF hn] by (simp add: s1_def)
  have adv2: "StreamInputAdvanceNext s1
                = (mem s (b_ptr (input_bl s)) (inputNext s + 1), s\<lparr>inputNext := inputNext s + 2\<rparr>)"
    using AdvanceNext_ok [OF e1 hn] by (simp add: s1_def)
  show ?thesis
    using assms more hn e1
    by (simp add: EncodeNextChunkAscii_def adv peek adv2)
qed

lemma PadRemainingInAscii_loop_room:
  assumes "status s = DmtxStatusEncoding"
    and "int (length_bl (output_bl s)) + r \<le> int (capacity (output_bl s))"
  shows "status (PadRemainingInAscii_loop s r) = DmtxStatusEncoding
       \<and> inputNext (PadRemainingInAscii_loop s r) = inputNext s
       \<and> input_bl (PadRemainingInAscii_loop s r) = input_bl s
       \<and> (\<exists>pads. StreamOutput (PadRemainingInAscii_loop s r) = StreamOutput s @ pads
                  \<and> int (length pads) = max 0 r)"
  using assms
proof (induction s r rule: PadRemainingInAscii_loop.induct)
  case (1 s r)
  show ?case
  proof (cases "r > 0")
    case False
    then show ?thesis
      using 1(2) by (subst (1 2 3 4) PadRemainingInAscii_loop.simps) simp
  next
    case True
    define v where "v = Randomize253State2 DmtxValueAsciiPad (int (length_bl (output_bl s)) + 1)"
    define s1 where "s1 = StreamOutputChainAppend s v"
    have room: "length_bl (output_bl s) < capacity (output_bl s)"
      using True 1(3) by linarith
    note a = Append_room [OF room, of v, folded s1_def]
    have st: "status s1 = DmtxStatusEncoding" using a 1(2) by simp
    have o: "StreamOutput s1 = StreamOutput s @ [v]"
      unfolding s1_def by (rule StreamOutput_Append_room [OF room])
    have r1: "int (length_bl (output_bl s1)) + (r - 1) \<le> int (capacity (output_bl s1))"
      using 1(3) a by simp
    have nst: "\<not> status s1 \<noteq> DmtxStatusEncoding" using st by simp
    note ih = 1(1) [OF True v_def s1_def nst st r1]
    have eq: "PadRemainingInAscii_loop s r = PadRemainingInAscii_loop s1 (r - 1)"
      using True st by (subst PadRemainingInAscii_loop.simps) (simp add: Let_def v_def s1_def)
    from ih obtain pads where
      p: "StreamOutput (PadRemainingInAscii_loop s1 (r - 1)) = StreamOutput s1 @ pads"
        "int (length pads) = max 0 (r - 1)" by blast
    have "StreamOutput (PadRemainingInAscii_loop s r) = StreamOutput s @ (v # pads)"
      "int (length (v # pads)) = max 0 r"
      using p True by (simp_all add: eq o)
    then have "\<exists>pads. StreamOutput (PadRemainingInAscii_loop s r) = StreamOutput s @ pads
                  \<and> int (length pads) = max 0 r" by blast
    then show ?thesis
      using ih a by (simp add: eq)
  qed
qed

lemma PadRemainingInAscii_room:
  assumes "status s = DmtxStatusEncoding" "currentScheme s = DmtxSchemeAscii"
    and "idx \<noteq> DmtxUndefined"
    and "SymbolDataWords tbl idx \<le> int (capacity (output_bl s))"
    and "length_bl (output_bl s) \<le> capacity (output_bl s)"
  defines "n \<equiv> SymbolDataWords tbl idx - int (length_bl (output_bl s))"
  shows "status (PadRemainingInAscii tbl s idx) = DmtxStatusEncoding
       \<and> inputNext (PadRemainingInAscii tbl s idx) = inputNext s
       \<and> input_bl (PadRemainingInAscii tbl s idx) = input_bl s
       \<and> (\<exists>pads. StreamOutput (PadRemainingInAscii tbl s idx) = StreamOutput s @ pads
                  \<and> int (length pads) = max 0 n
                  \<and> (0 < n \<longrightarrow> hd pads = DmtxValueAsciiPad))"
proof (cases "n > 0")
  case False
  have eq: "PadRemainingInAscii tbl s idx = PadRemainingInAscii_loop s n"
    using assms(2,3) False
    by (simp add: PadRemainingInAscii_def GetRemainingSymbolCapacity_def Let_def n_def)
  have "int (length_bl (output_bl s)) + n \<le> int (capacity (output_bl s))"
    using False assms(5) by linarith
  from PadRemainingInAscii_loop_room [OF assms(1) this] False show ?thesis
    unfolding eq by auto
next
  case True
  define s1 where "s1 = StreamOutputChainAppend s DmtxValueAsciiPad"
  have room: "length_bl (output_bl s) < capacity (output_bl s)"
    using True assms(4) by (simp add: n_def)
  note a = Append_room [OF room, of DmtxValueAsciiPad, folded s1_def]
  have st: "status s1 = DmtxStatusEncoding" using a assms(1) by simp
  have o: "StreamOutput s1 = StreamOutput s @ [DmtxValueAsciiPad]"
    unfolding s1_def by (rule StreamOutput_Append_room [OF room])
  have eq: "PadRemainingInAscii tbl s idx = PadRemainingInAscii_loop s1 (n - 1)"
    using assms(2,3) True st
    by (simp add: PadRemainingInAscii_def GetRemainingSymbolCapacity_def Let_def n_def s1_def)
  have "int (length_bl (output_bl s1)) + (n - 1) \<le> int (capacity (output_bl s1))"
    using a assms(4) by (simp add: n_def)
  from PadRemainingInAscii_loop_room [OF st this] obtain pads where
    p: "StreamOutput (PadRemainingInAscii_loop s1 (n - 1)) = StreamOutput s1 @ pads"
      "int (length pads) = max 0 (n - 1)"
    and f: "status (PadRemainingInAscii_loop s1 (n - 1)) = DmtxStatusEncoding"
      "inputNext (PadRemainingInAscii_loop s1 (n - 1)) = inputNext s1"
      "input_bl (PadRemainingInAscii_loop s1 (n - 1)) = input_bl s1"
    by blast
  have "StreamOutput (PadRemainingInAscii tbl s idx) = StreamOutput s @ (DmtxValueAsciiPad # pads)"
    "int (length (DmtxValueAsciiPad # pads)) = max 0 n"
    "hd (DmtxValueAsciiPad # pads) = DmtxValueAsciiPad"
    using p True by (simp_all add: eq o)
  then have "\<exists>pads. StreamOutput (PadRemainingInAscii tbl s idx) = StreamOutput s @ pads
                  \<and> int (length pads) = max 0 n
                  \<and> (0 < n \<longrightarrow> hd pads = DmtxValueAsciiPad)" by blast
  then show ?thesis
    using f a by (simp add: eq)
qed

section \<open>The whole encoder on "123456"\<close>

text \<open>
  Counterexample to claim C8 as stated: with the square symbols of ISO/IEC 16022 and automatic
  size, "123456" in ASCII encodes to exactly the three codewords 142, 164, 186 (the pair "34"
  gives \<open>10 * 3 + 4 + 130 = 164\<close>, not 154), which fill the 10x10 symbol, so that no pad
  follows.
\<close>

theorem Ascii_123456_codewords:
  "map_option (\<lambda>(passFail, s). (passFail, status s, sizeIdx s, map uint (StreamOutput s)))
     (EncodeSingleScheme2 SquareSymbols (StreamInit [0x31, 0x32, 0x33, 0x34, 0x35, 0x36] 16)
        DmtxSchemeAscii DmtxSymbolSquareAuto)
     = Some (DmtxPass, DmtxStatusComplete, 0, [142, 164, 186])
   \<and> map_option (\<lambda>(passFail, s). take 4 (map uint (StreamOutput s)))
     (EncodeSingleScheme2 SquareSymbols (StreamInit [0x31, 0x32, 0x33, 0x34, 0x35, 0x36] 16)
        DmtxSchemeAscii DmtxSymbolSquareAuto)
     \<noteq> Some [142, 154, 186, 129]"
  by code_simp

text \<open>
  Claim C8 (as amended). For every symbol table and size request, and an output buffer that
  holds the symbol found: encoding "123456" in ASCII succeeds when \<^verbatim>\<open>FindSymbolSize\<close> finds a
  symbol for three data words, and the output starts with the three digit-pair codewords 142,
  164, 186; when the symbol holds more than three data words the fourth codeword is the first
  pad 129, and when it holds three (or fewer) the output is these three codewords alone.
\<close>

theorem Ascii_123456_amended:
  fixes tbl :: DmtxSymbolTable and requestedSizeIdx :: int and cap :: nat
  defines "idx \<equiv> FindSymbolSize tbl 3 requestedSizeIdx"
  assumes found: "idx \<noteq> DmtxUndefined"
    and cap: "3 \<le> cap" "SymbolDataWords tbl idx \<le> int cap"
  shows "\<exists>s'. EncodeSingleScheme2 tbl (StreamInit [0x31, 0x32, 0x33, 0x34, 0x35, 0x36] cap)
                 DmtxSchemeAscii requestedSizeIdx = Some (DmtxPass, s')
              \<and> status s' = DmtxStatusComplete
              \<and> sizeIdx s' = idx
              \<and> take 3 (map uint (StreamOutput s')) = [142, 164, 186]
              \<and> (3 < SymbolDataWords tbl idx \<longrightarrow>
                    take 4 (map uint (StreamOutput s')) = [142, 164, 186, 129])
              \<and> (SymbolDataWords tbl idx \<le> 3 \<longrightarrow>
                    map uint (StreamOutput s') = [142, 164, 186])"
proof -
  define s0 where "s0 = StreamInit [0x31, 0x32, 0x33, 0x34, 0x35, 0x36] cap"
  define P where "P = (\<lambda>s k out.
      currentScheme s = DmtxSchemeAscii \<and> status s = DmtxStatusEncoding \<and> inputNext s = k
      \<and> input_bl s = \<lparr>length_bl = 6, capacity = 6, b_ptr = 0\<rparr>
      \<and> b_ptr (output_bl s) = 1 \<and> capacity (output_bl s) = cap
      \<and> mem s 0 = mem s0 0 \<and> StreamOutput s = out)"
  have inp: "mem s0 0 0 = 0x31" "mem s0 0 1 = 0x32" "mem s0 0 2 = 0x33" "mem s0 0 3 = 0x34"
    "mem s0 0 4 = 0x35" "mem s0 0 5 = 0x36"
    by (simp_all add: s0_def StreamInit_def)
  have P0: "P s0 0 []"
    by (simp add: P_def s0_def StreamInit_def dmtxByteListBuild_def StreamOutput_def)
  have step: "P (EncodeNextChunkAscii s) k' (out @ [cw])"
    if p: "P s k out" and k: "k2 = k + 1" "k' = k + 2" "k2 < 6"
      and v: "mem s0 0 k = v0" "mem s0 0 k2 = v1"
      and d: "ISDIGIT v0" "ISDIGIT v1"
      and cw: "cw = word_of_int (10 * (uint v0 - 48) + (uint v1 - 48) + 130)"
      and room: "length out < cap"
    for s k k2 k' out v0 v1 cw
  proof -
    have eq: "EncodeNextChunkAscii s = EncodeValueAscii (s\<lparr>inputNext := k'\<rparr>) cw"
      using EncodeNextChunkAscii_digit_pair [of s] p k d v by (simp add: P_def cw)
    have r: "length_bl (output_bl (s\<lparr>inputNext := k'\<rparr>)) < capacity (output_bl (s\<lparr>inputNext := k'\<rparr>))"
      using p room by (auto simp: P_def simp flip: length_StreamOutput)
    have sc: "currentScheme (s\<lparr>inputNext := k'\<rparr>) = DmtxSchemeAscii"
      "status (s\<lparr>inputNext := k'\<rparr>) = DmtxStatusEncoding"
      using p by (simp_all add: P_def)
    note e = EncodeValueAscii_ok [OF sc r, of cw]
    have w: "only_output_written (s\<lparr>inputNext := k'\<rparr>) (EncodeValueAscii (s\<lparr>inputNext := k'\<rparr>) cw)"
      by (rule only_output_written_EncodeValueAscii)
    have m: "mem (EncodeValueAscii (s\<lparr>inputNext := k'\<rparr>) cw) 0 = mem s 0"
      using w p by (simp add: only_output_written_def P_def)
    show ?thesis
      unfolding eq using p e m by (simp add: P_def)
  qed
  have chunk: "EncodeNextChunk tbl s DmtxSchemeAscii requestedSizeIdx
                 = Some (CompleteIfDoneAscii tbl (EncodeNextChunkAscii s) requestedSizeIdx)"
    if "currentScheme s = DmtxSchemeAscii" "status (EncodeNextChunkAscii s) = DmtxStatusEncoding" for s
    using that by (simp add: EncodeNextChunk_def EncodeNextChunk_switch_def Let_def)
  have goon: "CompleteIfDoneAscii tbl s requestedSizeIdx = s" if "P s k out" "k < 6" for s k out
    using that by (simp add: CompleteIfDoneAscii_def StreamInputHasNext_def P_def)
  define s1 where "s1 = EncodeNextChunkAscii s0"
  define s2 where "s2 = EncodeNextChunkAscii s1"
  define s3 where "s3 = EncodeNextChunkAscii s2"
  have P1: "P s1 2 [142]"
    using step [OF P0, where ?k2.0 = 1 and ?k' = 2 and ?v0.0 = "0x31" and ?v1.0 = "0x32"
        and ?cw = 142] cap(1) inp
    by (simp add: ISDIGIT_def s1_def)
  have P2: "P s2 4 [142, 164]"
    using step [OF P1, where ?k2.0 = 3 and ?k' = 4 and ?v0.0 = "0x33" and ?v1.0 = "0x34"
        and ?cw = 164] cap(1) inp
    by (simp add: ISDIGIT_def s2_def)
  have P3: "P s3 6 [142, 164, 186]"
    using step [OF P2, where ?k2.0 = 5 and ?k' = 6 and ?v0.0 = "0x35" and ?v1.0 = "0x36"
        and ?cw = 186] cap(1) inp
    by (simp add: ISDIGIT_def s3_def)
  have c1: "EncodeNextChunk tbl s0 DmtxSchemeAscii requestedSizeIdx = Some s1"
    using chunk [of s0] P0 P1 goon [OF P1] by (simp add: P_def s1_def)
  have c2: "EncodeNextChunk tbl s1 DmtxSchemeAscii requestedSizeIdx = Some s2"
    using chunk [of s1] P1 P2 goon [OF P2] by (simp add: P_def s2_def)
  define s4 where "s4 = PadRemainingInAscii tbl s3 idx"
  define s5 where "s5 = StreamMarkComplete s4 idx"
  have l3: "length_bl (output_bl s3) = 3"
    using P3 by (simp add: P_def flip: length_StreamOutput)
  have pad: "status s4 = DmtxStatusEncoding \<and> inputNext s4 = inputNext s3
       \<and> input_bl s4 = input_bl s3
       \<and> (\<exists>pads. StreamOutput s4 = StreamOutput s3 @ pads
                  \<and> int (length pads) = max 0 (SymbolDataWords tbl idx - int (length_bl (output_bl s3)))
                  \<and> (0 < SymbolDataWords tbl idx - int (length_bl (output_bl s3))
                        \<longrightarrow> hd pads = DmtxValueAsciiPad))"
    unfolding s4_def using P3 found cap l3
    by (intro PadRemainingInAscii_room) (simp_all add: P_def)
  have c3: "EncodeNextChunk tbl s2 DmtxSchemeAscii requestedSizeIdx = Some s5"
    using chunk [of s2] P2 P3 pad found
    by (simp add: P_def s3_def [symmetric] CompleteIfDoneAscii_def StreamInputHasNext_def l3
        idx_def [symmetric] s4_def [symmetric] s5_def Let_def)
  have st5: "status s5 = DmtxStatusComplete" "sizeIdx s5 = idx" "inputNext s5 = 6"
    "input_bl s5 = \<lparr>length_bl = 6, capacity = 6, b_ptr = 0\<rparr>" "StreamOutput s5 = StreamOutput s4"
    using pad P3 by (simp_all add: s5_def StreamMarkComplete_def P_def)
  have loop3: "EncodeSingleScheme2_loop tbl s5 DmtxSchemeAscii requestedSizeIdx = Some s5"
    using st5 by (subst EncodeSingleScheme2_loop.simps) simp
  have loop2: "EncodeSingleScheme2_loop tbl s2 DmtxSchemeAscii requestedSizeIdx = Some s5"
    using P2 by (subst EncodeSingleScheme2_loop.simps) (simp add: P_def c3 loop3)
  have loop1: "EncodeSingleScheme2_loop tbl s1 DmtxSchemeAscii requestedSizeIdx = Some s5"
    using P1 by (subst EncodeSingleScheme2_loop.simps) (simp add: P_def c2 loop2)
  have loop0: "EncodeSingleScheme2_loop tbl s0 DmtxSchemeAscii requestedSizeIdx = Some s5"
    using P0 by (subst EncodeSingleScheme2_loop.simps) (simp add: P_def c1 loop1)
  have res: "EncodeSingleScheme2 tbl s0 DmtxSchemeAscii requestedSizeIdx = Some (DmtxPass, s5)"
    using P0 st5 by (simp add: EncodeSingleScheme2_def loop0 P_def StreamInputHasNext_def)
  from pad obtain pads where
    pads: "StreamOutput s4 = StreamOutput s3 @ pads"
      "int (length pads) = max 0 (SymbolDataWords tbl idx - 3)"
      "0 < SymbolDataWords tbl idx - 3 \<longrightarrow> hd pads = DmtxValueAsciiPad"
    unfolding l3 by auto
  have o5: "map uint (StreamOutput s5) = [142, 164, 186] @ map uint pads"
    using pads(1) P3 st5 by (simp add: P_def)
  have t3: "take 3 (map uint (StreamOutput s5)) = [142, 164, 186]"
    by (simp add: o5)
  have t4: "take 4 (map uint (StreamOutput s5)) = [142, 164, 186, 129]"
    if "3 < SymbolDataWords tbl idx"
  proof -
    from that pads have "pads \<noteq> []" "hd pads = 129"
      by (auto simp: DmtxValueAsciiPad_def)
    then obtain ps where "pads = 129 # ps" by (cases pads) auto
    then show ?thesis by (simp add: o5)
  qed
  have t0: "map uint (StreamOutput s5) = [142, 164, 186]" if "SymbolDataWords tbl idx \<le> 3"
    using that pads(2) by (simp add: o5)
  show ?thesis
    unfolding s0_def [symmetric]
  proof (intro exI [of _ s5] conjI impI)
    show "EncodeSingleScheme2 tbl s0 DmtxSchemeAscii requestedSizeIdx = Some (DmtxPass, s5)"
      by (rule res)
    show "status s5 = DmtxStatusComplete" "sizeIdx s5 = idx"
      by (rule st5)+
    show "take 3 (map uint (StreamOutput s5)) = [142, 164, 186]"
      by (rule t3)
    show "take 4 (map uint (StreamOutput s5)) = [142, 164, 186, 129]"
      if "3 < SymbolDataWords tbl idx"
      using that by (rule t4)
    show "map uint (StreamOutput s5) = [142, 164, 186]" if "SymbolDataWords tbl idx \<le> 3"
      using that by (rule t0)
  qed
qed

theorem Ascii_123456_amended_witness:
  "FindSymbolSize SquareSymbols 3 1 \<noteq> DmtxUndefined
   \<and> SymbolDataWords SquareSymbols (FindSymbolSize SquareSymbols 3 1) = 5
   \<and> (\<exists>s'. EncodeSingleScheme2 SquareSymbols (StreamInit [0x31, 0x32, 0x33, 0x34, 0x35, 0x36] 16)
                 DmtxSchemeAscii 1 = Some (DmtxPass, s')
              \<and> status s' = DmtxStatusComplete
              \<and> take 4 (map uint (StreamOutput s')) = [142, 164, 186, 129])"
proof -
  have a: "FindSymbolSize SquareSymbols 3 1 = 1" "SymbolDataWords SquareSymbols 1 = 5"
    by (simp_all add: SquareSymbols_def SquareSymbolDataWords_def DmtxSymbolSquareAuto_def
        DmtxUndefined_def)
  have pre: "FindSymbolSize SquareSymbols 3 1 \<noteq> DmtxUndefined" "3 \<le> (16::nat)"
    "SymbolDataWords SquareSymbols (FindSymbolSize SquareSymbols 3 1) \<le> int 16"
    "3 < SymbolDataWords SquareSymbols (FindSymbolSize SquareSymbols 3 1)"
    by (simp_all add: a DmtxUndefined_def)
  from Ascii_123456_amended [OF pre(1,2,3)] obtain s' where
    r: "EncodeSingleScheme2 SquareSymbols (StreamInit [0x31, 0x32, 0x33, 0x34, 0x35, 0x36] 16)
          DmtxSchemeAscii 1 = Some (DmtxPass, s')"
      "status s' = DmtxStatusComplete"
      "3 < SymbolDataWords SquareSymbols (FindSymbolSize SquareSymbols 3 1) \<longrightarrow>
         take 4 (map uint (StreamOutput s')) = [142, 164, 186, 129]"
    by (elim exE conjE)
  from r(3) pre(4) have t: "take 4 (map uint (StreamOutput s')) = [142, 164, 186, 129]"
    by (rule mp)
  show ?thesis
  proof (intro conjI exI [of _ s'])
    show "FindSymbolSize SquareSymbols 3 1 \<noteq> DmtxUndefined" by (rule pre(1))
    show "SymbolDataWords SquareSymbols (FindSymbolSize SquareSymbols 3 1) = 5"
      by (simp only: a)
  qed (rule r t)+
qed


section \<open>A completed stream fills its symbol\<close>


subsection \<open>Nothing but \<^verbatim>\<open>StreamMarkComplete\<close> completes a stream\<close>

lemma nc_marks [simp]:
  "status (StreamMarkFatal s r) \<noteq> DmtxStatusComplete"
  "status (StreamMarkInvalid s r) \<noteq> DmtxStatusComplete"
  "status (StreamMarkFatal s r) \<noteq> DmtxStatusEncoding"
  "status (StreamMarkInvalid s r) \<noteq> DmtxStatusEncoding"
  by (simp_all add: StreamMarkFatal_def StreamMarkInvalid_def)

lemma nc_prims:
  "status (StreamOutputChainAppend s v) = DmtxStatusComplete \<Longrightarrow> status s = DmtxStatusComplete"
  "status (snd (StreamOutputChainRemoveLast s)) = DmtxStatusComplete \<Longrightarrow> status s = DmtxStatusComplete"
  "status (StreamOutputSet s i v) = DmtxStatusComplete \<Longrightarrow> status s = DmtxStatusComplete"
  "status (StreamOutputChainInsertFirst s) = DmtxStatusComplete \<Longrightarrow> status s = DmtxStatusComplete"
  "status (StreamOutputChainRemoveFirst s) = DmtxStatusComplete \<Longrightarrow> status s = DmtxStatusComplete"
  "status (snd (StreamInputPeekNext s)) = DmtxStatusComplete \<Longrightarrow> status s = DmtxStatusComplete"
  "status (snd (StreamInputAdvanceNext s)) = DmtxStatusComplete \<Longrightarrow> status s = DmtxStatusComplete"
  by (auto simp: StreamMarkFatal_def StreamMarkInvalid_def StreamOutputChainAppend_def
      StreamOutputChainRemoveLast_def StreamOutputSet_def StreamOutputChainInsertFirst_def
      StreamOutputChainRemoveFirst_def StreamInputPeekNext_def StreamInputAdvanceNext_def
      Let_def split: if_splits)

lemma nc_EncodeValueAscii:
  "status (EncodeValueAscii s v) = DmtxStatusComplete \<Longrightarrow> status s = DmtxStatusComplete"
  by (auto simp: EncodeValueAscii_def Let_def dest: nc_prims split: if_splits)

lemma enc_Append:
  "status (StreamOutputChainAppend s v) = DmtxStatusEncoding \<Longrightarrow>
     status s = DmtxStatusEncoding
     \<and> length_bl (output_bl (StreamOutputChainAppend s v)) = length_bl (output_bl s) + 1"
  by (auto simp: StreamMarkFatal_def StreamMarkInvalid_def StreamOutputChainAppend_def
      split: if_splits)

lemma nc_EncodeNextChunkAscii:
  assumes "status (EncodeNextChunkAscii s) = DmtxStatusComplete"
  shows "status s = DmtxStatusComplete"
proof (rule ccontr)
  assume n: "status s \<noteq> DmtxStatusComplete"
  obtain v0 s1 where a: "StreamInputAdvanceNext s = (v0, s1)" by (cases "StreamInputAdvanceNext s")
  have n1: "status s1 \<noteq> DmtxStatusComplete"
    using nc_prims(7) [of s] n by (auto simp: a)
  obtain v1 s2 where p: "StreamInputPeekNext s1 = (v1, s2)" by (cases "StreamInputPeekNext s1")
  have n2: "status s2 \<noteq> DmtxStatusComplete"
    using nc_prims(6) [of s1] n1 by (auto simp: p)
  obtain v s3 where a2: "StreamInputAdvanceNext s2 = (v, s3)" by (cases "StreamInputAdvanceNext s2")
  have n3: "status s3 \<noteq> DmtxStatusComplete"
    using nc_prims(7) [of s2] n2 by (auto simp: a2)
  obtain v' s3' where a3: "StreamInputAdvanceNext s1 = (v', s3')" by (cases "StreamInputAdvanceNext s1")
  have n3': "status s3' \<noteq> DmtxStatusComplete"
    using nc_prims(7) [of s1] n1 by (auto simp: a3)
  show False
    using assms n n1 n2 n3 n3'
    by (auto simp: EncodeNextChunkAscii_def a p a2 a3 Let_def dest!: nc_EncodeValueAscii
        split: if_splits)
qed

lemma nc_PadRemainingInAscii_loop:
  "status (PadRemainingInAscii_loop s r) = DmtxStatusComplete \<Longrightarrow> status s = DmtxStatusComplete"
proof (induction s r rule: PadRemainingInAscii_loop.induct)
  case (1 s r)
  show ?case
  proof (cases "r > 0")
    case False
    then show ?thesis using 1(2) by (subst (asm) PadRemainingInAscii_loop.simps) simp
  next
    case True
    define s1 where "s1 = StreamOutputChainAppend s
        (Randomize253State2 DmtxValueAsciiPad (int (length_bl (output_bl s)) + 1))"
    show ?thesis
    proof (cases "status s1 = DmtxStatusEncoding")
      case e: True
      have "status (PadRemainingInAscii_loop s1 (r - 1)) = DmtxStatusComplete"
        using 1(2) True e by (subst (asm) PadRemainingInAscii_loop.simps) (simp add: Let_def s1_def)
      from 1(1) [OF True refl s1_def _ this] e have "status s1 = DmtxStatusComplete" by simp
      with e show ?thesis by simp
    next
      case False
      then have "status s1 = DmtxStatusComplete"
        using 1(2) True by (subst (asm) PadRemainingInAscii_loop.simps) (simp add: Let_def s1_def)
      then show ?thesis unfolding s1_def by (rule nc_prims(1))
    qed
  qed
qed

lemma nc_PadRemainingInAscii:
  "status (PadRemainingInAscii tbl s idx) = DmtxStatusComplete \<Longrightarrow> status s = DmtxStatusComplete"
  by (auto simp: PadRemainingInAscii_def Let_def
      dest!: nc_PadRemainingInAscii_loop nc_prims(1) split: if_splits)

lemma len_PadRemainingInAscii_loop:
  "status (PadRemainingInAscii_loop s r) = DmtxStatusEncoding \<Longrightarrow>
     int (length_bl (output_bl (PadRemainingInAscii_loop s r)))
       = int (length_bl (output_bl s)) + max 0 r"
proof (induction s r rule: PadRemainingInAscii_loop.induct)
  case (1 s r)
  show ?case
  proof (cases "r > 0")
    case False
    then show ?thesis by (subst PadRemainingInAscii_loop.simps) simp
  next
    case True
    define s1 where "s1 = StreamOutputChainAppend s
        (Randomize253State2 DmtxValueAsciiPad (int (length_bl (output_bl s)) + 1))"
    have e: "status s1 = DmtxStatusEncoding"
      using 1(2) True
      by (subst (asm) PadRemainingInAscii_loop.simps) (auto simp: Let_def s1_def split: if_splits)
    have eq: "PadRemainingInAscii_loop s r = PadRemainingInAscii_loop s1 (r - 1)"
      using True e by (subst PadRemainingInAscii_loop.simps) (simp add: Let_def s1_def)
    have l: "length_bl (output_bl s1) = length_bl (output_bl s) + 1"
      using enc_Append [OF e [unfolded s1_def]] by (simp add: s1_def)
    from 1(1) [OF True refl s1_def _ 1(2) [unfolded eq]] e
    show ?thesis using True by (simp add: eq l)
  qed
qed

lemma len_PadRemainingInAscii:
  assumes "status (PadRemainingInAscii tbl s idx) = DmtxStatusEncoding"
    and "int (length_bl (output_bl s)) \<le> SymbolDataWords tbl idx"
  shows "int (length_bl (output_bl (PadRemainingInAscii tbl s idx))) = SymbolDataWords tbl idx"
proof -
  define n where "n = SymbolDataWords tbl idx - int (length_bl (output_bl s))"
  have pre: "currentScheme s = DmtxSchemeAscii" "idx \<noteq> DmtxUndefined"
    using assms(1) by (auto simp: PadRemainingInAscii_def split: if_splits)
  show ?thesis
  proof (cases "n > 0")
    case False
    then have "PadRemainingInAscii tbl s idx = PadRemainingInAscii_loop s n"
      using pre by (simp add: PadRemainingInAscii_def GetRemainingSymbolCapacity_def Let_def n_def)
    with len_PadRemainingInAscii_loop [of s n] assms False show ?thesis
      by (simp add: n_def)
  next
    case True
    define s1 where "s1 = StreamOutputChainAppend s DmtxValueAsciiPad"
    have e: "status s1 = DmtxStatusEncoding"
      using assms(1) pre True
      by (auto simp: PadRemainingInAscii_def GetRemainingSymbolCapacity_def Let_def n_def s1_def
          split: if_splits)
    have eq: "PadRemainingInAscii tbl s idx = PadRemainingInAscii_loop s1 (n - 1)"
      using pre True e
      by (simp add: PadRemainingInAscii_def GetRemainingSymbolCapacity_def Let_def n_def s1_def)
    have l: "length_bl (output_bl s1) = length_bl (output_bl s) + 1"
      using enc_Append [OF e [unfolded s1_def]] by (simp add: s1_def)
    from len_PadRemainingInAscii_loop [of s1 "n - 1"] assms(1) True show ?thesis
      by (simp add: eq l n_def)
  qed
qed

lemma StreamMarkComplete_simps:
  "status s = DmtxStatusEncoding \<Longrightarrow>
     status (StreamMarkComplete s i) = DmtxStatusComplete \<and> sizeIdx (StreamMarkComplete s i) = i
     \<and> output_bl (StreamMarkComplete s i) = output_bl s"
  "status s \<noteq> DmtxStatusEncoding \<Longrightarrow> StreamMarkComplete s i = s"
  by (simp_all add: StreamMarkComplete_def)

lemma filled_CompleteIfDoneAscii:
  assumes "SymbolTableFits tbl" "status s = DmtxStatusEncoding"
  shows "symbol_filled tbl (CompleteIfDoneAscii tbl s req)"
proof -
  define idx where "idx = FindSymbolSize tbl (int (length_bl (output_bl s))) req"
  define s1 where "s1 = PadRemainingInAscii tbl s idx"
  have fit: "idx \<noteq> DmtxUndefined \<Longrightarrow> int (length_bl (output_bl s)) \<le> SymbolDataWords tbl idx"
    using assms(1) by (simp add: SymbolTableFits_def idx_def)
  have "symbol_filled tbl (StreamMarkComplete s1 idx)"
    if "idx \<noteq> DmtxUndefined" "status s1 = DmtxStatusEncoding"
    using len_PadRemainingInAscii [OF that(2) [unfolded s1_def] fit [OF that(1)]] that(2)
    by (simp add: symbol_filled_def StreamMarkComplete_simps s1_def)
  moreover have "status s1 \<noteq> DmtxStatusComplete"
    using nc_PadRemainingInAscii [of tbl s idx] assms(2) by (auto simp: s1_def)
  ultimately show ?thesis
    using assms(2)
    by (auto simp: CompleteIfDoneAscii_def Let_def idx_def [symmetric] s1_def [symmetric]
        symbol_filled_def)
qed


lemma nc_pairs:
  "StreamOutputChainRemoveLast s = (v, s1) \<Longrightarrow> status s1 = DmtxStatusComplete
     \<Longrightarrow> status s = DmtxStatusComplete"
  "StreamInputPeekNext s = (v, s1) \<Longrightarrow> status s1 = DmtxStatusComplete
     \<Longrightarrow> status s = DmtxStatusComplete"
  "StreamInputAdvanceNext s = (v, s1) \<Longrightarrow> status s1 = DmtxStatusComplete
     \<Longrightarrow> status s = DmtxStatusComplete"
  using nc_prims(2) [of s] nc_prims(6) [of s] nc_prims(7) [of s] by auto

lemma nc_EncodeValuesCTX:
  "status (EncodeValuesCTX s vl) = DmtxStatusComplete \<Longrightarrow> status s = DmtxStatusComplete"
  by (auto simp: EncodeValuesCTX_def Let_def dest!: nc_prims(1) split: if_splits)

lemma len_EncodeValuesCTX:
  "status (EncodeValuesCTX s vl) = DmtxStatusEncoding \<Longrightarrow>
     length_bl (output_bl (EncodeValuesCTX s vl)) = length_bl (output_bl s) + 2"
  by (auto simp: EncodeValuesCTX_def Let_def dest!: enc_Append split: if_splits)

lemma nc_EncodeUnlatchCTX:
  "status (EncodeUnlatchCTX s) = DmtxStatusComplete \<Longrightarrow> status s = DmtxStatusComplete"
  by (auto simp: EncodeUnlatchCTX_def Let_def dest!: nc_prims(1) split: if_splits)

lemma nc_EncodeValuesCTX_loop:
  "status (EncodeValuesCTX_loop s vl) = DmtxStatusComplete \<Longrightarrow> status s = DmtxStatusComplete"
proof (induction s vl rule: EncodeValuesCTX_loop.induct)
  case (1 s vl)
  show ?case
  proof (cases "length vl \<ge> 3")
    case False
    then show ?thesis using 1(2) by (subst (asm) EncodeValuesCTX_loop.simps) simp
  next
    case True
    define s1 where "s1 = EncodeValuesCTX s vl"
    show ?thesis
    proof (cases "status s1 = DmtxStatusEncoding")
      case e: True
      have "status (EncodeValuesCTX_loop s1 vl) = DmtxStatusComplete"
        using 1(2) True e by (subst (asm) EncodeValuesCTX_loop.simps) (simp add: Let_def s1_def)
      from 1(1) [OF True s1_def _ this] e have "status s1 = DmtxStatusComplete" by simp
      with e show ?thesis by simp
    next
      case False
      then have "status s1 = DmtxStatusComplete"
        using 1(2) True by (subst (asm) EncodeValuesCTX_loop.simps) (simp add: Let_def s1_def)
      then show ?thesis unfolding s1_def by (rule nc_EncodeValuesCTX)
    qed
  qed
qed

lemma nc_EncodeNextChunkCTX_loop:
  "EncodeNextChunkCTX_loop cap s vl = Some (r, vl') \<Longrightarrow> status r = DmtxStatusComplete
     \<Longrightarrow> status s = DmtxStatusComplete"
proof (induction cap s vl rule: EncodeNextChunkCTX_loop.induct)
  case (1 cap s vl)
  show ?case
  proof (cases "StreamInputHasNext s")
    case False
    then show ?thesis
      using 1(2,3) by (subst (asm) EncodeNextChunkCTX_loop.simps) simp
  next
    case True
    obtain v s1 where a: "StreamInputAdvanceNext s = (v, s1)" by (cases "StreamInputAdvanceNext s")
    show ?thesis
    proof (cases "status s1 = DmtxStatusEncoding")
      case False
      then have "r = s1"
        using 1(2) True by (subst (asm) EncodeNextChunkCTX_loop.simps) (simp add: a)
      with 1(3) show ?thesis using nc_pairs(3) [OF a] by simp
    next
      case e: True
      show ?thesis
      proof (cases "PushCTXValues cap vl (uint v) (currentScheme s1)")
        case None
        then show ?thesis
          using 1(2) True e by (subst (asm) EncodeNextChunkCTX_loop.simps) (simp add: a)
      next
        case (Some pv)
        obtain pf vl1 where pv: "pv = (pf, vl1)" by (cases pv)
        define s2 where "s2 = EncodeValuesCTX_loop s1 vl1"
        have c: "status s2 = DmtxStatusComplete \<Longrightarrow> False"
          using nc_EncodeValuesCTX_loop [of s1 vl1] e by (simp add: s2_def)
        have unf: "EncodeNextChunkCTX_loop cap s vl
                     = (if status s2 \<noteq> DmtxStatusEncoding then Some (s2, vl1)
                        else if length vl1 = 0 then Some (s2, vl1)
                        else EncodeNextChunkCTX_loop cap s2 vl1)"
          using True e
          by (subst EncodeNextChunkCTX_loop.simps) (simp add: a Some pv s2_def Let_def)
        show ?thesis
        proof (cases "status s2 \<noteq> DmtxStatusEncoding \<or> length vl1 = 0")
          case stop: True
          then have "r = s2"
            using 1(2) unfolding unf by (simp split: if_splits)
          with c 1(3) show ?thesis by simp
        next
          case go: False
          then have "EncodeNextChunkCTX_loop cap s2 vl1 = Some (r, vl')"
            using 1(2) unfolding unf by (simp split: if_splits)
          from 1(1) [OF True a [symmetric] refl _ Some [unfolded pv] refl s2_def _ _ this 1(3)] e go
          have "status s2 = DmtxStatusComplete" by simp
          with c show ?thesis by simp
        qed
      qed
    qed
  qed
qed

lemma nc_EncodeValueEdifact:
  "status (EncodeValueEdifact s v) = DmtxStatusComplete \<Longrightarrow> status s = DmtxStatusComplete"
proof (rule ccontr)
  assume c: "status (EncodeValueEdifact s v) = DmtxStatusComplete" and n: "status s \<noteq> DmtxStatusComplete"
  obtain p s1 where r: "StreamOutputChainRemoveLast s = (p, s1)"
    by (cases "StreamOutputChainRemoveLast s")
  have n1: "status s1 \<noteq> DmtxStatusComplete" using nc_pairs(1) [OF r] n by auto
  have ap: "status (StreamOutputChainAppend t x) \<noteq> DmtxStatusComplete"
    if "status t \<noteq> DmtxStatusComplete" for t x
    using that nc_prims(1) [of t x] by auto
  show False
    using c n
    by (simp add: EncodeValueEdifact_def Let_def r n1 ap split: if_splits)
qed

lemma nc_EncodeNextChunkEdifact:
  "status (EncodeNextChunkEdifact s) = DmtxStatusComplete \<Longrightarrow> status s = DmtxStatusComplete"
  by (auto simp: EncodeNextChunkEdifact_def Let_def
      dest!: nc_EncodeValueEdifact nc_pairs(3) split: if_splits prod.splits)


lemma nc_UpdateBase256ChainHeader_encode:
  "status (UpdateBase256ChainHeader_encode tbl s p hi L hbc) = DmtxStatusComplete
     \<Longrightarrow> status s = DmtxStatusComplete"
  by (auto simp: UpdateBase256ChainHeader_encode_def Let_def dest!: nc_prims(3) split: if_splits)

lemma nc_UpdateBase256ChainHeader:
  "status (UpdateBase256ChainHeader tbl s p) = DmtxStatusComplete \<Longrightarrow> status s = DmtxStatusComplete"
  by (auto simp: UpdateBase256ChainHeader_def Let_def
      dest!: nc_UpdateBase256ChainHeader_encode nc_prims(1) nc_prims(4) nc_prims(5)
      split: if_splits)

lemma len_UpdateBase256ChainHeader_perfect:
  assumes "status (UpdateBase256ChainHeader tbl s p) = DmtxStatusEncoding" "p \<noteq> DmtxUndefined"
  shows "int (length_bl (output_bl (UpdateBase256ChainHeader tbl s p))) = SymbolDataWords tbl p"
proof -
  have e: "int (length_bl (output_bl (UpdateBase256ChainHeader_encode tbl t p hi L hbc)))
             = SymbolDataWords tbl p"
    if "status (UpdateBase256ChainHeader_encode tbl t p hi L hbc) = DmtxStatusEncoding"
    for t hi L hbc
    using UpdateBase256ChainHeader_encode_cases [OF that] assms(2) by auto
  show ?thesis
    using assms(1)
    by (auto simp: UpdateBase256ChainHeader_def Let_def e split: if_splits)
qed

lemma nc_EncodeValueBase256:
  "status (EncodeValueBase256 tbl s v) = DmtxStatusComplete \<Longrightarrow> status s = DmtxStatusComplete"
  by (auto simp: EncodeValueBase256_def Let_def
      dest!: nc_UpdateBase256ChainHeader nc_prims(1) split: if_splits)

lemma nc_EncodeNextChunkBase256:
  "status (EncodeNextChunkBase256 tbl s) = DmtxStatusComplete \<Longrightarrow> status s = DmtxStatusComplete"
  by (auto simp: EncodeNextChunkBase256_def Let_def
      dest!: nc_EncodeValueBase256 nc_pairs(3) split: if_splits prod.splits)

lemma nc_EncodeChangeScheme_chain:
  "status (EncodeChangeScheme_chain tbl s t) = DmtxStatusComplete \<Longrightarrow> status s = DmtxStatusComplete"
  by (auto simp: EncodeChangeScheme_chain_def Let_def dest!: nc_UpdateBase256ChainHeader
      split: if_splits)

lemma nc_EncodeChangeScheme_latch:
  "status (EncodeChangeScheme_latch tbl s t) = DmtxStatusComplete \<Longrightarrow> status s = DmtxStatusComplete"
  by (cases t)
    (auto simp: EncodeChangeScheme_latch_def Let_def
      dest!: nc_EncodeChangeScheme_chain nc_EncodeValueAscii split: if_splits)

lemma nc_EncodeChangeScheme:
  "status (EncodeChangeScheme tbl s t u) = DmtxStatusComplete \<Longrightarrow> status s = DmtxStatusComplete"
  by (auto simp: EncodeChangeScheme_def Let_def
      dest!: nc_EncodeChangeScheme_latch nc_EncodeUnlatchCTX nc_EncodeValueEdifact
      split: if_splits)

lemma EncodeChangeScheme_Ascii_Implicit:
  "length_bl (output_bl (EncodeChangeScheme tbl s DmtxSchemeAscii DmtxUnlatchImplicit))
     = length_bl (output_bl s)"
  by (simp add: EncodeChangeScheme_def EncodeChangeScheme_latch_def EncodeChangeScheme_chain_def
      Let_def)

lemma nc_EncodeValueAscii_each:
  "status (EncodeValueAscii_each s l i) = DmtxStatusComplete \<Longrightarrow> status s = DmtxStatusComplete"
proof (induction s l i rule: EncodeValueAscii_each.induct)
  case (1 s l i)
  show ?case
  proof (cases "i < length_bl l")
    case False
    then show ?thesis using 1(2) by (subst (asm) EncodeValueAscii_each.simps) simp
  next
    case True
    define s1 where "s1 = EncodeValueAscii s (mem s (b_ptr l) i)"
    show ?thesis
    proof (cases "status s1 = DmtxStatusEncoding")
      case e: True
      have "status (EncodeValueAscii_each s1 l (i + 1)) = DmtxStatusComplete"
        using 1(2) True e by (subst (asm) EncodeValueAscii_each.simps) (simp add: Let_def s1_def)
      from 1(1) [OF True s1_def _ this] e have "status s1 = DmtxStatusComplete" by simp
      with e show ?thesis by simp
    next
      case False
      then have "status s1 = DmtxStatusComplete"
        using 1(2) True by (subst (asm) EncodeValueAscii_each.simps) (simp add: Let_def s1_def)
      then show ?thesis unfolding s1_def by (rule nc_EncodeValueAscii)
    qed
  qed
qed

lemma len_EncodeValueAscii:
  "status (EncodeValueAscii s v) = DmtxStatusEncoding \<Longrightarrow>
     length_bl (output_bl (EncodeValueAscii s v)) = length_bl (output_bl s) + 1"
  by (auto simp: EncodeValueAscii_def Let_def dest!: enc_Append split: if_splits)

lemma len_EncodeValueAscii_each:
  "status (EncodeValueAscii_each s l i) = DmtxStatusEncoding \<Longrightarrow>
     length_bl (output_bl (EncodeValueAscii_each s l i))
       = length_bl (output_bl s) + (length_bl l - i)"
proof (induction s l i rule: EncodeValueAscii_each.induct)
  case (1 s l i)
  show ?case
  proof (cases "i < length_bl l")
    case False
    then show ?thesis by (subst EncodeValueAscii_each.simps) simp
  next
    case True
    define s1 where "s1 = EncodeValueAscii s (mem s (b_ptr l) i)"
    have e: "status s1 = DmtxStatusEncoding"
      using 1(2) True
      by (subst (asm) EncodeValueAscii_each.simps) (auto simp: Let_def s1_def split: if_splits)
    have eq: "EncodeValueAscii_each s l i = EncodeValueAscii_each s1 l (i + 1)"
      using True e by (subst EncodeValueAscii_each.simps) (simp add: Let_def s1_def)
    have l: "length_bl (output_bl s1) = length_bl (output_bl s) + 1"
      unfolding s1_def by (rule len_EncodeValueAscii [OF e [unfolded s1_def]])
    from 1(1) [OF True s1_def _ 1(2) [unfolded eq]] e
    show ?thesis using True by (simp add: eq l)
  qed
qed

lemma EncodeTmpRemainingInAscii_fields:
  assumes "EncodeTmpRemainingInAscii s storage cap = Some (outputTmp, passFail, s1)"
  shows "status s1 = status s" "output_bl s1 = output_bl s" "sizeIdx s1 = sizeIdx s"
  using assms
  by (auto simp: EncodeTmpRemainingInAscii_def split: bind_splits)


subsection \<open>Each completion fills the symbol\<close>

lemma filled_not_complete: "status s \<noteq> DmtxStatusComplete \<Longrightarrow> symbol_filled tbl s"
  by (simp add: symbol_filled_def)

lemma filled_CompleteIfDoneCTX:
  assumes "status s = DmtxStatusEncoding"
  shows "symbol_filled tbl (CompleteIfDoneCTX tbl s req)"
proof -
  have "status (EncodeChangeScheme tbl s DmtxSchemeAscii DmtxUnlatchExplicit) \<noteq> DmtxStatusComplete"
    using nc_EncodeChangeScheme [of tbl s] assms by auto
  then show ?thesis
    using assms
    by (auto simp: CompleteIfDoneCTX_def Let_def symbol_filled_def GetRemainingSymbolCapacity_def
        StreamMarkComplete_def)
qed

lemma filled_CompleteIfDonePartialCTX:
  assumes "status s = DmtxStatusEncoding"
    and "CompleteIfDonePartialCTX tbl cap s vl req = Some r"
  shows "symbol_filled tbl r"
proof -
  define idx where "idx = FindSymbolSize tbl (int (length_bl (output_bl s))) req"
  have fin: "symbol_filled tbl (StreamMarkComplete (EncodeValuesCTX s vl1) idx)"
    if "status (EncodeValuesCTX s vl1) = DmtxStatusEncoding"
      "SymbolDataWords tbl idx - int (length_bl (output_bl s)) = 2" for vl1
    using that len_EncodeValuesCTX [OF that(1)]
    by (simp add: symbol_filled_def StreamMarkComplete_def)
  have fail: "symbol_filled tbl (EncodeValuesCTX s vl1)"
    if "status (EncodeValuesCTX s vl1) \<noteq> DmtxStatusEncoding" for vl1
    using nc_EncodeValuesCTX [of s vl1] assms(1) by (auto simp: symbol_filled_def)
  show ?thesis
    using assms
    by (auto simp: CompleteIfDonePartialCTX_def Let_def idx_def [symmetric]
        GetRemainingSymbolCapacity_def filled_not_complete fin fail
        split: if_splits bind_splits)
qed

lemma filled_EncodeNextChunkCTX:
  assumes "status s = DmtxStatusEncoding"
    and "EncodeNextChunkCTX tbl s req = Some r"
  shows "symbol_filled tbl r"
proof -
  from assms(2) obtain s1 vl where
    l: "EncodeNextChunkCTX_loop 4 s [] = Some (s1, vl)"
    and r: "(if status s1 \<noteq> DmtxStatusEncoding then Some s1
             else if \<not> StreamInputHasNext s1 \<and> length vl > 0
               then CompleteIfDonePartialCTX tbl 4 s1 vl req
             else Some s1) = Some r"
    by (auto simp: EncodeNextChunkCTX_def split: bind_splits)
  have n1: "status s1 \<noteq> DmtxStatusComplete"
    using nc_EncodeNextChunkCTX_loop [OF l] assms(1) by auto
  show ?thesis
  proof (cases "status s1 = DmtxStatusEncoding \<and> \<not> StreamInputHasNext s1 \<and> length vl > 0")
    case True
    then have "CompleteIfDonePartialCTX tbl 4 s1 vl req = Some r" using r by simp
    with True show ?thesis by (intro filled_CompleteIfDonePartialCTX [of s1]) simp_all
  next
    case False
    then have "r = s1" using r by (auto split: if_splits)
    with n1 show ?thesis by (simp add: filled_not_complete)
  qed
qed

lemma filled_CompleteIfDoneBase256:
  assumes "SymbolTableFits tbl" "status s = DmtxStatusEncoding"
  shows "symbol_filled tbl (CompleteIfDoneBase256 tbl s req)"
proof (cases "StreamInputHasNext s")
  case True
  then show ?thesis using assms(2) by (simp add: CompleteIfDoneBase256_def filled_not_complete)
next
  case False
  define p where "p = FindSymbolSize tbl (int (length_bl (output_bl s)) - 1) req"
  define idx where "idx = FindSymbolSize tbl (int (length_bl (output_bl s))) req"
  define s1 where "s1 = UpdateBase256ChainHeader tbl s p"
  define t1 where "t1 = EncodeChangeScheme tbl s DmtxSchemeAscii DmtxUnlatchImplicit"
  define t2 where "t2 = PadRemainingInAscii tbl t1 idx"
  have perfect: "symbol_filled tbl (if status s1 \<noteq> DmtxStatusEncoding then s1
                                    else StreamMarkComplete s1 p)"
    if "p \<noteq> DmtxUndefined"
  proof (cases "status s1 = DmtxStatusEncoding")
    case True
    with len_UpdateBase256ChainHeader_perfect [OF True [unfolded s1_def] that] show ?thesis
      by (simp add: symbol_filled_def StreamMarkComplete_def s1_def)
  next
    case False
    moreover have "status s1 \<noteq> DmtxStatusComplete"
      using nc_UpdateBase256ChainHeader [of tbl s p] assms(2) by (auto simp: s1_def)
    ultimately show ?thesis by (simp add: filled_not_complete)
  qed
  have fit: "int (length_bl (output_bl t1)) \<le> SymbolDataWords tbl idx" if "idx \<noteq> DmtxUndefined"
    using assms(1) that
    by (simp add: SymbolTableFits_def idx_def t1_def EncodeChangeScheme_Ascii_Implicit)
  have normal: "symbol_filled tbl (StreamMarkComplete t2 idx)" if "idx \<noteq> DmtxUndefined"
  proof (cases "status t2 = DmtxStatusEncoding")
    case True
    with len_PadRemainingInAscii [OF True [unfolded t2_def] fit [OF that]] show ?thesis
      by (simp add: symbol_filled_def StreamMarkComplete_def t2_def)
  next
    case False
    moreover have "status t2 \<noteq> DmtxStatusComplete"
      using nc_PadRemainingInAscii [of tbl t1 idx] nc_EncodeChangeScheme [of tbl s] assms(2)
      by (auto simp: t2_def t1_def)
    ultimately show ?thesis by (simp add: filled_not_complete StreamMarkComplete_def)
  qed
  show ?thesis
    using False perfect normal
    by (auto simp add: CompleteIfDoneBase256_def Let_def p_def [symmetric] idx_def [symmetric]
        s1_def [symmetric] t1_def [symmetric] t2_def [symmetric] filled_not_complete
        split: if_splits)
qed


lemma filled_CompleteIfDoneEdifact:
  assumes fits: "SymbolTableFits tbl" and enc: "status s = DmtxStatusEncoding"
    and run: "CompleteIfDoneEdifact tbl s req = Some r"
  shows "symbol_filled tbl r"
proof -
  define idx where "idx = FindSymbolSize tbl (int (length_bl (output_bl s))) req"
  define rem where "rem = SymbolDataWords tbl idx - int (length_bl (output_bl s))"
  have fit: "0 \<le> rem" if "idx \<noteq> DmtxUndefined"
    using fits that by (simp add: SymbolTableFits_def idx_def rem_def)
  show ?thesis
  proof (cases "idx = DmtxUndefined")
    case True
    then have "r = StreamMarkInvalid s 1"
      using run by (simp add: CompleteIfDoneEdifact_def Let_def idx_def)
    then show ?thesis by (simp add: filled_not_complete)
  next
    case found: False
    have gr: "GetRemainingSymbolCapacity tbl (int (length_bl (output_bl s))) idx = rem"
      using found by (simp add: GetRemainingSymbolCapacity_def rem_def)
    show ?thesis
    proof (cases "StreamInputHasNext s")
      case False
      define s1 where "s1 = EncodeChangeScheme tbl s DmtxSchemeAscii DmtxUnlatchExplicit"
      define idx1 where "idx1 = FindSymbolSize tbl (int (length_bl (output_bl s1))) req"
      define s2 where "s2 = PadRemainingInAscii tbl s1 idx1"
      have n1: "status s1 \<noteq> DmtxStatusComplete"
        using nc_EncodeChangeScheme [of tbl s] enc by (auto simp: s1_def)
      have n2: "status s2 \<noteq> DmtxStatusComplete"
        using nc_PadRemainingInAscii [of tbl s1 idx1] n1 by (auto simp: s2_def)
      have fit1: "int (length_bl (output_bl s1)) \<le> SymbolDataWords tbl idx1"
        if "idx1 \<noteq> DmtxUndefined"
        using fits that by (simp add: SymbolTableFits_def idx1_def)
      have padded: "symbol_filled tbl (StreamMarkComplete s2 idx1)"
        if "idx1 \<noteq> DmtxUndefined" "status s2 = DmtxStatusEncoding"
        using len_PadRemainingInAscii [OF that(2) [unfolded s2_def] fit1 [OF that(1)]] that(2)
        by (simp add: symbol_filled_def StreamMarkComplete_def s2_def)
      have full: "symbol_filled tbl (StreamMarkComplete s idx)" if "\<not> rem > 0"
        using that fit [OF found] enc by (simp add: symbol_filled_def StreamMarkComplete_def rem_def)
      show ?thesis
        using run False found enc n1 n2 padded full
        by (auto simp: CompleteIfDoneEdifact_def Let_def idx_def [symmetric] gr
            s1_def [symmetric] idx1_def [symmetric] s2_def [symmetric] filled_not_complete
            split: if_splits)
    next
      case True
      from run True found enc obtain outputTmp passFail s1 where
        tmp: "EncodeTmpRemainingInAscii s (outputTmpStorage s) 3 = Some (outputTmp, passFail, s1)"
        by (auto simp: CompleteIfDoneEdifact_def Let_def idx_def [symmetric] gr split: bind_splits)
      note f1 = EncodeTmpRemainingInAscii_fields [OF tmp]
      define s2 where "s2 = EncodeChangeScheme tbl s1 DmtxSchemeAscii DmtxUnlatchImplicit"
      define s3 where "s3 = EncodeValueAscii_each s2 outputTmp 0"
      define s4 where "s4 = s3\<lparr>inputNext := length_bl (input_bl s3)\<rparr>"
      define s5 where "s5 = PadRemainingInAscii tbl s4 idx"
      have n1: "status s1 \<noteq> DmtxStatusComplete" using f1 enc by simp
      have n2: "status s2 \<noteq> DmtxStatusComplete"
        using nc_EncodeChangeScheme [of tbl s1] n1 by (auto simp: s2_def)
      have n3: "status s3 \<noteq> DmtxStatusComplete"
        using nc_EncodeValueAscii_each [of s2 outputTmp 0] n2 by (auto simp: s3_def)
      have n5: "status s5 \<noteq> DmtxStatusComplete"
        using nc_PadRemainingInAscii [of tbl s4 idx] n3 by (auto simp: s5_def s4_def)
      have l2: "length_bl (output_bl s2) = length_bl (output_bl s)"
        by (simp add: s2_def EncodeChangeScheme_Ascii_Implicit f1)
      have padded: "symbol_filled tbl (StreamMarkComplete s5 idx)"
        if k: "\<not> int (length_bl outputTmp) > rem" and e3: "status s3 = DmtxStatusEncoding"
          and e5: "status s5 = DmtxStatusEncoding"
      proof -
        have "length_bl (output_bl s4) = length_bl (output_bl s) + length_bl outputTmp"
          using len_EncodeValueAscii_each [OF e3 [unfolded s3_def]] l2 by (simp add: s4_def s3_def)
        then have "int (length_bl (output_bl s4)) \<le> SymbolDataWords tbl idx"
          using k by (simp add: rem_def)
        from len_PadRemainingInAscii [OF e5 [unfolded s5_def] this] e5 show ?thesis
          by (simp add: symbol_filled_def StreamMarkComplete_def s5_def)
      qed
      show ?thesis
        using run True found enc n1 n2 n3 n5 padded
        by (auto simp: CompleteIfDoneEdifact_def Let_def idx_def [symmetric] gr tmp
            s2_def [symmetric] s3_def [symmetric] s4_def [symmetric] s5_def [symmetric]
            filled_not_complete split: if_splits)
    qed
  qed
qed


lemma filled_EncodeNextChunk_switch:
  assumes "SymbolTableFits tbl" "status s = DmtxStatusEncoding"
    and "EncodeNextChunk_switch tbl s req = Some r"
  shows "symbol_filled tbl r"
proof (cases "currentScheme s")
  case DmtxSchemeAscii
  have "status (EncodeNextChunkAscii s) \<noteq> DmtxStatusComplete"
    using nc_EncodeNextChunkAscii [of s] assms(2) by auto
  then show ?thesis
    using assms DmtxSchemeAscii
    by (auto simp: EncodeNextChunk_switch_def Let_def filled_not_complete
        filled_CompleteIfDoneAscii split: if_splits)
next
  case DmtxSchemeEdifact
  have "status (EncodeNextChunkEdifact s) \<noteq> DmtxStatusComplete"
    using nc_EncodeNextChunkEdifact [of s] assms(2) by auto
  then show ?thesis
    using assms DmtxSchemeEdifact
    by (auto simp: EncodeNextChunk_switch_def Let_def filled_not_complete
        intro: filled_CompleteIfDoneEdifact split: if_splits)
next
  case DmtxSchemeBase256
  have "status (EncodeNextChunkBase256 tbl s) \<noteq> DmtxStatusComplete"
    using nc_EncodeNextChunkBase256 [of tbl s] assms(2) by auto
  then show ?thesis
    using assms DmtxSchemeBase256
    by (auto simp: EncodeNextChunk_switch_def Let_def filled_not_complete
        filled_CompleteIfDoneBase256 split: if_splits)
next
  case DmtxSchemeC40
  then show ?thesis
    using assms filled_EncodeNextChunkCTX [OF assms(2)]
    by (auto simp: EncodeNextChunk_switch_def filled_CompleteIfDoneCTX
        split: if_splits bind_splits)
next
  case DmtxSchemeText
  then show ?thesis
    using assms filled_EncodeNextChunkCTX [OF assms(2)]
    by (auto simp: EncodeNextChunk_switch_def filled_CompleteIfDoneCTX
        split: if_splits bind_splits)
next
  case DmtxSchemeX12
  then show ?thesis
    using assms filled_EncodeNextChunkCTX [OF assms(2)]
    by (auto simp: EncodeNextChunk_switch_def filled_CompleteIfDoneCTX
        split: if_splits bind_splits)
qed

lemma filled_EncodeNextChunk:
  assumes "SymbolTableFits tbl" "status s = DmtxStatusEncoding"
    and "EncodeNextChunk tbl s t req = Some r"
  shows "symbol_filled tbl r"
proof -
  define s1 where "s1 = EncodeChangeScheme tbl s t DmtxUnlatchExplicit"
  have n1: "status s1 \<noteq> DmtxStatusComplete"
    using nc_EncodeChangeScheme [of tbl s t] assms(2) by (auto simp: s1_def)
  show ?thesis
    using assms n1 filled_EncodeNextChunk_switch [OF assms(1), of s req r]
      filled_EncodeNextChunk_switch [OF assms(1), of s1 req r]
    by (auto simp: EncodeNextChunk_def Let_def s1_def [symmetric] filled_not_complete
        split: if_splits)
qed

lemma filled_EncodeSingleScheme2_loop:
  assumes run: "EncodeSingleScheme2_loop tbl s t req = Some r"
    and fits: "SymbolTableFits tbl" and start: "symbol_filled tbl s"
  shows "symbol_filled tbl r"
proof -
  have "SymbolTableFits tbl \<longrightarrow> symbol_filled tbl s \<longrightarrow> symbol_filled tbl r"
  proof (rule EncodeSingleScheme2_loop.raw_induct
      [where P = "\<lambda>tbl s t req r. SymbolTableFits tbl \<longrightarrow> symbol_filled tbl s \<longrightarrow> symbol_filled tbl r",
        OF _ run], goal_cases)
    case (1 loop tbl s t req r)
    show ?case
    proof (intro impI)
      assume f: "SymbolTableFits tbl" and st: "symbol_filled tbl s"
      show "symbol_filled tbl r"
      proof (cases "status s = DmtxStatusEncoding")
        case False
        then have "r = s" using 1(2) by simp
        with st show ?thesis by simp
      next
        case True
        then obtain s1 where c: "EncodeNextChunk tbl s t req = Some s1"
          and l: "loop tbl s1 t req = Some r"
          using 1(2) by (auto split: bind_splits)
        from filled_EncodeNextChunk [OF f True c] have "symbol_filled tbl s1" .
        with 1(1) [OF l] f show ?thesis by simp
      qed
    qed
  qed
  with fits start show ?thesis by simp
qed

lemma FindFirstFit_fits:
  "FindFirstFit ws d i = j \<Longrightarrow> j \<noteq> DmtxUndefined \<Longrightarrow> 0 \<le> i \<Longrightarrow>
     i \<le> j \<and> j < i + int (length ws) \<and> d \<le> ws ! nat (j - i)"
proof (induction ws arbitrary: i)
  case Nil
  then show ?case by simp
next
  case (Cons w ws)
  show ?case
  proof (cases "d \<le> w")
    case True
    then show ?thesis using Cons.prems by simp
  next
    case False
    then have "FindFirstFit ws d (i + 1) = j" using Cons.prems by simp
    from Cons.IH [OF this Cons.prems(2)] Cons.prems(3)
    have a: "i + 1 \<le> j" "j < i + 1 + int (length ws)" "d \<le> ws ! nat (j - (i + 1))" by simp_all
    have "nat (j - i) = Suc (nat (j - (i + 1)))" using a by simp
    with a show ?thesis by simp
  qed
qed

lemma SquareSymbols_fits: "SymbolTableFits SquareSymbols"
  unfolding SymbolTableFits_def
proof (intro allI impI)
  fix d h
  assume f: "FindSymbolSize SquareSymbols d h \<noteq> DmtxUndefined"
  have len: "length SquareSymbolDataWords = 24" by (simp add: SquareSymbolDataWords_def)
  show "d \<le> SymbolDataWords SquareSymbols (FindSymbolSize SquareSymbols d h)"
  proof (cases "h = DmtxSymbolSquareAuto")
    case True
    define j where "j = FindFirstFit SquareSymbolDataWords d 0"
    have j: "FindSymbolSize SquareSymbols d h = j"
      using True by (simp add: SquareSymbols_def j_def)
    from FindFirstFit_fits [OF j_def [symmetric], of ] f j
    have b: "0 \<le> j" "j < 24" "d \<le> SquareSymbolDataWords ! nat j"
      by (simp_all add: len)
    have "SymbolDataWords SquareSymbols j = SquareSymbolDataWords ! nat j"
      using b(1,2) by (simp add: SquareSymbols_def)
    with b(3) show ?thesis unfolding j by simp
  next
    case False
    have "FindSymbolSize SquareSymbols d h = h \<and> 0 \<le> h \<and> h < 24
            \<and> d \<le> SquareSymbolDataWords ! nat h"
      using f False by (simp add: SquareSymbols_def split: if_splits)
    then have h: "FindSymbolSize SquareSymbols d h = h" "0 \<le> h" "h < 24"
      "d \<le> SquareSymbolDataWords ! nat h" by simp_all
    have "SymbolDataWords SquareSymbols h = SquareSymbolDataWords ! nat h"
      using h(2,3) by (simp add: SquareSymbols_def)
    with h(4) show ?thesis unfolding h(1) by simp
  qed
qed

text \<open>
  Claim C2. Whenever \<^verbatim>\<open>EncodeSingleScheme2\<close>, started on a stream that is encoding, returns
  with the stream Complete, the output holds exactly the data words of the symbol recorded in
  \<^verbatim>\<open>sizeIdx\<close>: \<open>output.length = symbol_data_words(size_idx)\<close>. This covers every completion
  of the source (ASCII, C40/Text/X12 perfect fit and Shift1-padded pair, the three EDIFACT
  endings, Base 256 perfect fit and padded), for every symbol table whose
  \<^verbatim>\<open>FindSymbolSize\<close> returns a symbol that holds the data words asked for.
\<close>

theorem Complete_fills_symbol:
  assumes fits: "SymbolTableFits tbl"
    and start: "status s = DmtxStatusEncoding"
    and run: "EncodeSingleScheme2 tbl s targetScheme requestedSizeIdx = Some (passFail, s')"
    and complete: "status s' = DmtxStatusComplete"
  shows "int (length (StreamOutput s')) = SymbolDataWords tbl (sizeIdx s')"
proof -
  have "symbol_filled tbl s'"
  proof (cases "currentScheme s = DmtxSchemeAscii")
    case False
    then have "s' = StreamMarkFatal s 1" using run by (simp add: EncodeSingleScheme2_def)
    then show ?thesis by (simp add: filled_not_complete)
  next
    case True
    then have "EncodeSingleScheme2_loop tbl s targetScheme requestedSizeIdx = Some s'"
      using run by (auto simp: EncodeSingleScheme2_def split: bind_splits if_splits)
    from filled_EncodeSingleScheme2_loop [OF this fits] start show ?thesis
      by (simp add: symbol_filled_def)
  qed
  with complete show ?thesis by (simp add: symbol_filled_def)
qed


theorem Complete_fills_symbol_witness:
  "SymbolTableFits SquareSymbols
   \<and> (\<exists>passFail s'. EncodeSingleScheme2 SquareSymbols (StreamInit [0x41] 8) DmtxSchemeAscii
            DmtxSymbolSquareAuto = Some (passFail, s')
          \<and> status s' = DmtxStatusComplete \<and> length (StreamOutput s') = 3
          \<and> int (length (StreamOutput s')) = SymbolDataWords SquareSymbols (sizeIdx s'))
   \<and> (\<exists>passFail s'. EncodeSingleScheme2 SquareSymbols (StreamInit [0x41] 8) DmtxSchemeC40
            DmtxSymbolSquareAuto = Some (passFail, s')
          \<and> status s' = DmtxStatusComplete \<and> length (StreamOutput s') = 3
          \<and> int (length (StreamOutput s')) = SymbolDataWords SquareSymbols (sizeIdx s'))
   \<and> (\<exists>passFail s'. EncodeSingleScheme2 SquareSymbols (StreamInit [0x41, 0x49] 8) DmtxSchemeC40
            DmtxSymbolSquareAuto = Some (passFail, s')
          \<and> status s' = DmtxStatusComplete \<and> length (StreamOutput s') = 3
          \<and> int (length (StreamOutput s')) = SymbolDataWords SquareSymbols (sizeIdx s'))
   \<and> (\<exists>passFail s'. EncodeSingleScheme2 SquareSymbols (StreamInit [0x41, 0x42, 0x43, 0x44, 0x45] 8)
            DmtxSchemeEdifact DmtxSymbolSquareAuto = Some (passFail, s')
          \<and> status s' = DmtxStatusComplete \<and> length (StreamOutput s') = 5
          \<and> int (length (StreamOutput s')) = SymbolDataWords SquareSymbols (sizeIdx s'))
   \<and> (\<exists>passFail s'. EncodeSingleScheme2 SquareSymbols (StreamInit [0x41, 0x42] 8) DmtxSchemeBase256
            DmtxSymbolSquareAuto = Some (passFail, s')
          \<and> status s' = DmtxStatusComplete \<and> length (StreamOutput s') = 5
          \<and> int (length (StreamOutput s')) = SymbolDataWords SquareSymbols (sizeIdx s'))"
proof -
  have w: "\<exists>passFail s'. EncodeSingleScheme2 SquareSymbols (StreamInit bytes 8) t
            DmtxSymbolSquareAuto = Some (passFail, s')
          \<and> status s' = DmtxStatusComplete \<and> length (StreamOutput s') = n
          \<and> int (length (StreamOutput s')) = SymbolDataWords SquareSymbols (sizeIdx s')"
    if r: "map_option (\<lambda>(passFail, s'). (status s', length_bl (output_bl s')))
             (EncodeSingleScheme2 SquareSymbols (StreamInit bytes 8) t DmtxSymbolSquareAuto)
           = Some (DmtxStatusComplete, n)"
    for bytes t n
  proof -
    from r obtain passFail s' where
      e: "EncodeSingleScheme2 SquareSymbols (StreamInit bytes 8) t DmtxSymbolSquareAuto
            = Some (passFail, s')"
        "status s' = DmtxStatusComplete" "length_bl (output_bl s') = n"
      by (cases "EncodeSingleScheme2 SquareSymbols (StreamInit bytes 8) t DmtxSymbolSquareAuto")
        auto
    have st: "status (StreamInit bytes 8) = DmtxStatusEncoding"
      by (simp add: StreamInit_def)
    from Complete_fills_symbol [OF SquareSymbols_fits st e(1) e(2)] e show ?thesis
      by (intro exI [of _ passFail] exI [of _ s']) simp
  qed
  have r1: "map_option (\<lambda>(passFail, s'). (status s', length_bl (output_bl s')))
             (EncodeSingleScheme2 SquareSymbols (StreamInit [0x41] 8) DmtxSchemeAscii
                DmtxSymbolSquareAuto) = Some (DmtxStatusComplete, 3)"
    by code_simp
  have r2: "map_option (\<lambda>(passFail, s'). (status s', length_bl (output_bl s')))
             (EncodeSingleScheme2 SquareSymbols (StreamInit [0x41] 8) DmtxSchemeC40
                DmtxSymbolSquareAuto) = Some (DmtxStatusComplete, 3)"
    by code_simp
  have r3: "map_option (\<lambda>(passFail, s'). (status s', length_bl (output_bl s')))
             (EncodeSingleScheme2 SquareSymbols (StreamInit [0x41, 0x49] 8) DmtxSchemeC40
                DmtxSymbolSquareAuto) = Some (DmtxStatusComplete, 3)"
    by code_simp
  have r4: "map_option (\<lambda>(passFail, s'). (status s', length_bl (output_bl s')))
             (EncodeSingleScheme2 SquareSymbols (StreamInit [0x41, 0x42, 0x43, 0x44, 0x45] 8)
                DmtxSchemeEdifact DmtxSymbolSquareAuto) = Some (DmtxStatusComplete, 5)"
    by code_simp
  have r5: "map_option (\<lambda>(passFail, s'). (status s', length_bl (output_bl s')))
             (EncodeSingleScheme2 SquareSymbols (StreamInit [0x41, 0x42] 8) DmtxSchemeBase256
                DmtxSymbolSquareAuto) = Some (DmtxStatusComplete, 5)"
    by code_simp
  show ?thesis
    by (intro conjI SquareSymbols_fits w [OF r1] w [OF r2] w [OF r3] w [OF r4] w [OF r5])
qed

end
